theory Spec2Isabelle
  imports Complex_Main "HOL-Library.Log_Nat"
begin

section \<open>Binary floating-point values and correctly rounded arithmetic\<close>

text \<open>
  The program computes with C++ \<open>float\<close> (IEEE 754 binary32) and \<open>double\<close> (binary64).
  A floating-point datum is modelled by the rational number it denotes, or by one of the
  special values. Every arithmetic operation computes the exact rational result and rounds
  it to the format of the operation (round to nearest, ties to even, gradual underflow,
  overflow to infinity), as an implementation does that evaluates every operation in the
  precision of its type. Zero carries no sign: the program never divides by a computed
  zero (its only divisor is an unsigned count) and never inspects the sign of a zero.
\<close>

datatype fval = Fin rat | PInf | NInf | NaN

record fformat =
  prec :: nat
  emin :: int
  emax :: int

definition binary32 :: fformat where
  "binary32 = \<lparr>prec = 24, emin = - 126, emax = 127\<rparr>"

definition binary64 :: fformat where
  "binary64 = \<lparr>prec = 53, emin = - 1022, emax = 1023\<rparr>"

definition pow2 :: "int \<Rightarrow> rat" where
  "pow2 k = (if 0 \<le> k then 2 ^ nat k else 1 / 2 ^ nat (- k))"

text \<open>The binary exponent of a positive rational: \<open>pow2 (flog2 x) \<le> x < pow2 (flog2 x + 1)\<close>.\<close>

definition flog2 :: "rat \<Rightarrow> int" where
  "flog2 x = (if 1 \<le> x then bitlen \<lfloor>x\<rfloor> - 1 else - bitlen (\<lceil>1 / x\<rceil> - 1))"

definition round_half_even :: "rat \<Rightarrow> int" where
  "round_half_even y =
     (let f = \<lfloor>y\<rfloor>; d = y - of_int f
      in if d < 1 / 2 then f else if 1 / 2 < d then f + 1
         else if even f then f else f + 1)"

text \<open>The exponent of the last place of the format at \<open>x\<close> (subnormals share \<open>emin\<close>).\<close>

definition quantum :: "fformat \<Rightarrow> rat \<Rightarrow> int" where
  "quantum fmt x = max (flog2 \<bar>x\<bar>) (emin fmt) - (int (prec fmt) - 1)"

definition round_rat :: "fformat \<Rightarrow> rat \<Rightarrow> rat" where
  "round_rat fmt x =
     (if x = 0 then 0
      else of_int (round_half_even (x / pow2 (quantum fmt x))) * pow2 (quantum fmt x))"

text \<open>A rounded magnitude of \<open>pow2 (emax + 1)\<close> or more overflows to an infinity.\<close>

definition fround :: "fformat \<Rightarrow> rat \<Rightarrow> fval" where
  "fround fmt x =
     (let y = round_rat fmt x
      in if y = 0 then Fin 0
         else if emax fmt < flog2 \<bar>y\<bar> then (if 0 < y then PInf else NInf)
         else Fin y)"

text \<open>Conversion of a value to a format (\<open>float\<close> to \<open>double\<close>, \<open>double\<close> to \<open>float\<close>).\<close>

fun fconv :: "fformat \<Rightarrow> fval \<Rightarrow> fval" where
  "fconv fmt (Fin x) = fround fmt x"
| "fconv fmt v = v"

fun fneg :: "fval \<Rightarrow> fval" where
  "fneg (Fin x) = Fin (- x)"
| "fneg PInf = NInf"
| "fneg NInf = PInf"
| "fneg NaN = NaN"

fun fadd :: "fformat \<Rightarrow> fval \<Rightarrow> fval \<Rightarrow> fval" where
  "fadd fmt NaN b = NaN"
| "fadd fmt a NaN = NaN"
| "fadd fmt PInf NInf = NaN"
| "fadd fmt NInf PInf = NaN"
| "fadd fmt PInf b = PInf"
| "fadd fmt a PInf = PInf"
| "fadd fmt NInf b = NInf"
| "fadd fmt a NInf = NInf"
| "fadd fmt (Fin x) (Fin y) = fround fmt (x + y)"

definition fsub :: "fformat \<Rightarrow> fval \<Rightarrow> fval \<Rightarrow> fval" where
  "fsub fmt a b = fadd fmt a (fneg b)"

text \<open>The sign of a non-NaN value: zero counts as positive.\<close>

fun fnegative :: "fval \<Rightarrow> bool" where
  "fnegative (Fin x) = (x < 0)"
| "fnegative NInf = True"
| "fnegative v = False"

definition signed_inf :: "bool \<Rightarrow> fval" where
  "signed_inf neg = (if neg then NInf else PInf)"

fun fmul :: "fformat \<Rightarrow> fval \<Rightarrow> fval \<Rightarrow> fval" where
  "fmul fmt NaN b = NaN"
| "fmul fmt a NaN = NaN"
| "fmul fmt (Fin x) (Fin y) = fround fmt (x * y)"
| "fmul fmt (Fin x) b = (if x = 0 then NaN else signed_inf (fnegative (Fin x) \<noteq> fnegative b))"
| "fmul fmt a (Fin y) = (if y = 0 then NaN else signed_inf (fnegative a \<noteq> fnegative (Fin y)))"
| "fmul fmt a b = signed_inf (fnegative a \<noteq> fnegative b)"

fun fdiv :: "fformat \<Rightarrow> fval \<Rightarrow> fval \<Rightarrow> fval" where
  "fdiv fmt NaN b = NaN"
| "fdiv fmt a NaN = NaN"
| "fdiv fmt (Fin x) (Fin y) =
     (if y = 0 then (if x = 0 then NaN else signed_inf (x < 0)) else fround fmt (x / y))"
| "fdiv fmt (Fin x) b = Fin 0"
| "fdiv fmt a (Fin y) = signed_inf (fnegative a \<noteq> fnegative (Fin y))"
| "fdiv fmt a b = NaN"

text \<open>\<open>std::fabs\<close>.\<close>

fun fabs :: "fval \<Rightarrow> fval" where
  "fabs (Fin x) = Fin \<bar>x\<bar>"
| "fabs PInf = PInf"
| "fabs NInf = PInf"
| "fabs NaN = NaN"

text \<open>The comparisons \<open>a > b\<close> and \<open>a \<le> b\<close> of C++: false as soon as an operand is NaN.\<close>

fun fle :: "fval \<Rightarrow> fval \<Rightarrow> bool" where
  "fle NaN b = False"
| "fle a NaN = False"
| "fle NInf b = True"
| "fle a PInf = True"
| "fle PInf b = False"
| "fle a NInf = False"
| "fle (Fin x) (Fin y) = (x \<le> y)"

fun fgt :: "fval \<Rightarrow> fval \<Rightarrow> bool" where
  "fgt NaN b = False"
| "fgt a NaN = False"
| "fgt a PInf = False"
| "fgt NInf b = False"
| "fgt PInf b = True"
| "fgt a NInf = True"
| "fgt (Fin x) (Fin y) = (y < x)"

text \<open>A value that the format holds: rounding leaves it as it is.\<close>

definition representable :: "fformat \<Rightarrow> fval \<Rightarrow> bool" where
  "representable fmt v = (fconv fmt v = v)"

section \<open>The graph store\<close>

type_synonym vertex_id = nat

record edge_type =
  source :: vertex_id
  target :: vertex_id

text \<open>\<open>typedef float vertex_data_type\<close>: the data of a vertex is its rank, a \<open>float\<close>.\<close>

type_synonym vertex_data_type = fval

definition vertex_data_format :: fformat where
  "vertex_data_format = binary32"

text \<open>
  \<open>graphlab::distributed_graph<vertex_data_type, edge_data_type>\<close>: the directed edges
  (they carry no data) and the datum of every vertex.
\<close>

record graph_type =
  edges :: "edge_type list"
  vdata :: "vertex_id \<Rightarrow> vertex_data_type"

text \<open>
  Modelled from the spec: \<open>num_out_edges\<close>, \<open>in_edges\<close> and \<open>out_edges\<close> of the graph
  store, which is not part of the program file. The out-degree of a vertex is the count of
  edges where it is the source; the store iterates over the in-edges and the out-edges of
  a vertex.
\<close>

definition num_out_edges :: "graph_type \<Rightarrow> vertex_id \<Rightarrow> nat" where
  "num_out_edges g v = length (filter (\<lambda>e. source e = v) (edges g))"

definition in_edges :: "graph_type \<Rightarrow> vertex_id \<Rightarrow> edge_type list" where
  "in_edges g v = filter (\<lambda>e. target e = v) (edges g)"

definition out_edges :: "graph_type \<Rightarrow> vertex_id \<Rightarrow> edge_type list" where
  "out_edges g v = filter (\<lambda>e. source e = v) (edges g)"

text \<open>
  Modelled from the spec: \<open>transform_vertices\<close> of the graph store, its bulk-transform
  facility, which invokes the hook once per vertex.
\<close>

definition transform_vertices ::
  "(vertex_data_type \<Rightarrow> vertex_data_type) \<Rightarrow> graph_type \<Rightarrow> graph_type" where
  "transform_vertices f g = g\<lparr>vdata := (\<lambda>v. f (vdata g v))\<rparr>"

section \<open>The vertex program\<close>

text \<open>
  \<open>float RESET_PROB = 0.15;\<close> The literal is a \<open>double\<close>, converted to \<open>float\<close> by the
  initialisation. No statement of the program assigns the variable.
\<close>

definition RESET_PROB :: fval where
  "RESET_PROB = fconv binary32 (fround binary64 (15 / 100))"

text \<open>The \<open>double\<close> literal \<open>1E-2\<close> of \<open>scatter_edges\<close>.\<close>

definition CONVERGENCE_THRESHOLD :: fval where
  "CONVERGENCE_THRESHOLD = fround binary64 (1 / 100)"

text \<open>
  \<open>void init_vertex(graph_type::vertex_type& vertex) { vertex.data() = 1; }\<close>
  The assignment converts the integer to the type of the vertex data.
\<close>

definition init_vertex :: "vertex_data_type \<Rightarrow> vertex_data_type" where
  "init_vertex d = fround vertex_data_format 1"

text \<open>The class \<open>pagerank\<close> has one data member, \<open>double last_change\<close>.\<close>

record pagerank =
  last_change :: fval

text \<open>The directions of \<open>graphlab::edge_dir_type\<close>.\<close>

datatype edge_dir_type = NO_EDGES | IN_EDGES | OUT_EDGES | ALL_EDGES

text \<open>\<open>num_out_edges()\<close> is a \<open>size_t\<close>; the division converts it to \<open>double\<close>.\<close>

definition double_of_size_t :: "nat \<Rightarrow> fval" where
  "double_of_size_t n = fround binary64 (of_nat n)"

text \<open>
  \<open>gather\<close>: \<open>1.0 - RESET_PROB\<close>, the quotient and the product are \<open>double\<close> operations
  (the \<open>float\<close> operands are converted to \<open>double\<close>); the \<open>return\<close> converts the product to
  \<open>float\<close>. The vertex gathered for is not read.
\<close>

definition gather :: "graph_type \<Rightarrow> vertex_id \<Rightarrow> edge_type \<Rightarrow> fval" where
  "gather g vertex edge =
     fconv binary32
       (fmul binary64
          (fdiv binary64
             (fsub binary64 (Fin 1) (fconv binary64 RESET_PROB))
             (double_of_size_t (num_out_edges g (source edge))))
          (fconv binary64 (vdata g (source edge))))"

text \<open>
  \<open>apply\<close>, named \<open>apply_vertex\<close> here, its argument \<open>total\<close> named \<open>gsum\<close> (both names
  are taken in Isabelle/HOL): \<open>total + RESET_PROB\<close> adds two
  \<open>float\<close>s, so it is a \<open>float\<close> addition, whose result initialises the \<open>double newval\<close>;
  the difference is a \<open>double\<close> subtraction; the assignment to \<open>vertex.data()\<close> converts
  \<open>newval\<close> to the type of the vertex data. The function writes the member \<open>last_change\<close>
  of its program object and the datum of its vertex: it takes and returns both.
\<close>

definition apply_vertex ::
  "pagerank \<times> vertex_data_type \<Rightarrow> fval \<Rightarrow> pagerank \<times> vertex_data_type" where
  "apply_vertex pv gsum =
     (let newval = fconv binary64 (fadd binary32 gsum RESET_PROB);
          lc = fabs (fsub binary64 newval (fconv binary64 (snd pv)))
      in ((fst pv)\<lparr>last_change := lc\<rparr>, fconv vertex_data_format newval))"

definition scatter_edges :: "pagerank \<Rightarrow> edge_dir_type" where
  "scatter_edges p =
     (if fgt (last_change p) CONVERGENCE_THRESHOLD then OUT_EDGES else NO_EDGES)"

section \<open>The engine\<close>

text \<open>
  The state of a run: the graph with the vertex data, the program object of every vertex,
  the active set, and the vertices signalled so far in the current round.
\<close>

record engine =
  graph :: graph_type
  vprog :: "vertex_id \<Rightarrow> pagerank"
  active :: "vertex_id list"
  signalled :: "vertex_id list"

text \<open>
  \<open>scatter\<close>: \<open>context.signal(edge.target())\<close>. The context is the engine's: the signal
  is recorded there.
\<close>

definition scatter :: "engine \<Rightarrow> vertex_id \<Rightarrow> edge_type \<Rightarrow> engine" where
  "scatter context vertex edge = context\<lparr>signalled := signalled context @ [target edge]\<rparr>"

text \<open>
  \<open>apply\<close> invoked by the engine on vertex \<open>v\<close>: the program object and the datum of \<open>v\<close>
  are the ones passed to it.
\<close>

definition apply_at :: "engine \<Rightarrow> vertex_id \<Rightarrow> fval \<Rightarrow> engine" where
  "apply_at st v gsum =
     (let r = apply_vertex (vprog st v, vdata (graph st) v) gsum
      in st\<lparr>graph := (graph st)\<lparr>vdata := (vdata (graph st))(v := snd r)\<rparr>,
            vprog := (vprog st)(v := fst r)\<rparr>)"

text \<open>
  Modelled from the spec: the synchronous engine (the activation scheduler), which is not
  part of the program file. A round runs \<open>gather\<close> over every in-edge of every active
  vertex and combines the results by a \<open>float\<close> sum; then \<open>apply\<close> for every active
  vertex, each with the sum gathered from the ranks at the start of the round; then
  \<open>scatter_edges\<close> and, over the edges it selects, \<open>scatter\<close> for every active vertex.
  The signalled vertices, merged into a set, are the next active set.
\<close>

definition gather_sum :: "graph_type \<Rightarrow> vertex_id \<Rightarrow> fval" where
  "gather_sum g v = foldl (fadd binary32) (Fin 0) (map (gather g v) (in_edges g v))"

definition apply_phase :: "(vertex_id \<times> fval) list \<Rightarrow> engine \<Rightarrow> engine" where
  "apply_phase totals st = foldl (\<lambda>s (v, gsum). apply_at s v gsum) st totals"

definition scatter_vertex :: "engine \<Rightarrow> vertex_id \<Rightarrow> engine" where
  "scatter_vertex st v =
     (if scatter_edges (vprog st v) = OUT_EDGES
      then foldl (\<lambda>s e. scatter s v e) st (out_edges (graph st) v)
      else st)"

definition scatter_phase :: "engine \<Rightarrow> engine" where
  "scatter_phase st = foldl scatter_vertex st (active st)"

definition sync_round :: "engine \<Rightarrow> engine" where
  "sync_round st =
     (let totals = map (\<lambda>v. (v, gather_sum (graph st) v)) (active st);
          st' = scatter_phase (apply_phase totals st)
      in st'\<lparr>active := remdups (signalled st'), signalled := []\<rparr>)"

text \<open>
  Modelled from the spec: the seeding of a run. The driver initialises every vertex with
  \<open>init_vertex\<close>, and \<open>signal_all\<close> makes every vertex active before round 1. The program
  objects have no constructor: their \<open>last_change\<close> starts as whatever \<open>progs\<close> holds.
\<close>

definition start_engine ::
  "vertex_id list \<Rightarrow> graph_type \<Rightarrow> (vertex_id \<Rightarrow> pagerank) \<Rightarrow> engine" where
  "start_engine vs g progs =
     \<lparr>graph = transform_vertices init_vertex g, vprog = progs, active = remdups vs,
      signalled = []\<rparr>"

section \<open>Powers of two and binary exponents\<close>

lemma pow2_powi: "pow2 k = 2 powi k"
  by (simp add: pow2_def power_int_def field_simps)

lemma pow2_pos [simp]: "0 < pow2 k"
  by (simp add: pow2_powi)

lemma pow2_nonneg [simp]: "0 \<le> pow2 k"
  using pow2_pos [of k] by (simp only: less_imp_le)

lemma pow2_neq0 [simp]: "pow2 k \<noteq> 0"
  using pow2_pos [of k] by (simp only: less_imp_neq not_sym)

lemma pow2_add: "pow2 (a + b) = pow2 a * pow2 b"
  by (simp add: pow2_powi power_int_add)

lemma pow2_0 [simp]: "pow2 0 = 1"
  by (simp add: pow2_def)

lemma pow2_nat: "pow2 (int n) = 2 ^ n"
  by (simp add: pow2_def)

lemma pow2_mono: "a \<le> b \<Longrightarrow> pow2 a \<le> pow2 b"
  by (simp add: pow2_powi power_int_increasing)

lemma pow2_strict_mono: "a < b \<Longrightarrow> pow2 a < pow2 b"
  by (simp add: pow2_powi power_int_strict_increasing)

lemma pow2_less_iff: "pow2 a < pow2 b \<longleftrightarrow> a < b"
  using pow2_strict_mono [of a b] pow2_mono [of b a] by (cases "a < b") auto

lemma pow2_le_iff: "pow2 a \<le> pow2 b \<longleftrightarrow> a \<le> b"
  using pow2_strict_mono [of b a] pow2_mono [of a b] by (cases "a \<le> b") auto

lemma pow2_minus: "pow2 (- a) = 1 / pow2 a"
  by (simp add: pow2_powi power_int_minus field_simps)

lemma pow2_diff: "pow2 (a - b) = pow2 a / pow2 b"
  using pow2_add [of a "- b"] by (simp add: pow2_minus)

lemma of_int_le_two_power: "(n::int) \<le> 2 ^ k \<Longrightarrow> (of_int n :: rat) \<le> 2 ^ k"
  by (metis of_int_le_iff of_int_numeral of_int_power)

lemma two_power_le_of_int: "2 ^ k \<le> (n::int) \<Longrightarrow> 2 ^ k \<le> (of_int n :: rat)"
  by (metis of_int_le_iff of_int_numeral of_int_power)

lemma flog2_bounds:
  assumes "0 < x"
  shows "pow2 (flog2 x) \<le> x" and "x < pow2 (flog2 x + 1)"
proof -
  have "pow2 (flog2 x) \<le> x \<and> x < pow2 (flog2 x + 1)"
  proof (cases "1 \<le> x")
    case True
    define n where "n = \<lfloor>x\<rfloor>"
    have n: "0 < n" using True by (simp add: n_def)
    have b: "1 \<le> bitlen n" using n by (simp add: bitlen_alt_def)
    from bitlen_bounds [OF n] have lo: "2 ^ nat (bitlen n - 1) \<le> n" and hi: "n < 2 ^ nat (bitlen n)"
      by simp_all
    have "2 ^ nat (bitlen n - 1) \<le> (of_int n :: rat)"
      using lo by (rule two_power_le_of_int)
    also have "\<dots> \<le> x" by (simp add: n_def)
    finally have 1: "pow2 (bitlen n - 1) \<le> x"
      using b by (simp add: pow2_def)
    have "n + 1 \<le> 2 ^ nat (bitlen n)" using hi by simp
    then have "(of_int (n + 1) :: rat) \<le> 2 ^ nat (bitlen n)"
      by (rule of_int_le_two_power)
    moreover have "x < of_int (n + 1)" unfolding n_def by linarith
    ultimately have 2: "x < pow2 (bitlen n)"
      using b by (simp add: pow2_def)
    show ?thesis using True 1 2 by (simp add: flog2_def n_def)
  next
    case False
    define c where "c = \<lceil>1 / x\<rceil>"
    have inv: "1 < 1 / x" using False assms by (simp add: field_simps)
    then have c2: "2 \<le> c" unfolding c_def by (simp add: le_ceiling_iff)
    define k where "k = bitlen (c - 1)"
    have c1: "0 < c - 1" using c2 by simp
    have k1: "1 \<le> k" using c1 by (simp add: k_def bitlen_alt_def)
    from bitlen_bounds [OF c1] have lo: "2 ^ nat (k - 1) \<le> c - 1" and hi: "c - 1 < 2 ^ nat k"
      by (simp_all add: k_def)
    have "c \<le> 2 ^ nat k" using hi by simp
    then have "(of_int c :: rat) \<le> 2 ^ nat k" by (rule of_int_le_two_power)
    moreover have "1 / x \<le> of_int c" by (simp add: c_def)
    ultimately have "1 / x \<le> 2 ^ nat k" by linarith
    then have "1 \<le> 2 ^ nat k * x" using assms by (simp add: field_simps)
    then have 1: "pow2 (- k) \<le> x" using k1 by (simp add: pow2_def field_simps)
    have "(of_int (c - 1) :: rat) < 1 / x" unfolding c_def by linarith
    moreover have "2 ^ nat (k - 1) \<le> (of_int (c - 1) :: rat)"
      using lo by (rule two_power_le_of_int)
    ultimately have "2 ^ nat (k - 1) < 1 / x" by linarith
    then have "2 ^ nat (k - 1) * x < 1" using assms by (simp add: field_simps)
    then have 2: "x < pow2 (- k + 1)" using k1
      by (cases "k = 1") (simp_all add: pow2_def field_simps nat_diff_distrib)
    show ?thesis using False 1 2 by (simp add: flog2_def c_def k_def)
  qed
  then show "pow2 (flog2 x) \<le> x" and "x < pow2 (flog2 x + 1)" by simp_all
qed

lemma flog2_unique:
  assumes "pow2 e \<le> x" "x < pow2 (e + 1)"
  shows "flog2 x = e"
proof -
  have x: "0 < x" using assms(1) pow2_pos [of e] by linarith
  note b = flog2_bounds [OF x]
  have "pow2 e < pow2 (flog2 x + 1)" using assms(1) b(2) by linarith
  then have 1: "e < flog2 x + 1" by (simp add: pow2_less_iff)
  have "pow2 (flog2 x) < pow2 (e + 1)" using assms(2) b(1) by linarith
  then have 2: "flog2 x < e + 1" by (simp add: pow2_less_iff)
  show ?thesis using 1 2 by simp
qed

lemma flog2_mono:
  assumes "0 < x" "x \<le> y"
  shows "flog2 x \<le> flog2 y"
proof -
  have y: "0 < y" using assms by simp
  have "pow2 (flog2 x) < pow2 (flog2 y + 1)"
    using flog2_bounds(1) [OF assms(1)] flog2_bounds(2) [OF y] assms(2) by linarith
  then show ?thesis by (simp add: pow2_less_iff)
qed

lemma flog2_less:
  assumes "0 < x" "x < pow2 e"
  shows "flog2 x < e"
proof -
  have "pow2 (flog2 x) < pow2 e" using flog2_bounds(1) [OF assms(1)] assms(2) by linarith
  then show ?thesis by (simp add: pow2_less_iff)
qed

lemma flog2_ge:
  assumes "pow2 e \<le> x"
  shows "e \<le> flog2 x"
proof -
  have x: "0 < x" using assms pow2_pos [of e] by linarith
  have "pow2 e < pow2 (flog2 x + 1)" using flog2_bounds(2) [OF x] assms by linarith
  then show ?thesis by (simp add: pow2_less_iff)
qed

section \<open>Rounding to the nearest integer, ties to even\<close>

lemma round_half_even_of_int [simp]: "round_half_even (of_int n) = n"
  by (simp add: round_half_even_def)

lemma round_half_even_floor: "\<lfloor>y\<rfloor> \<le> round_half_even y"
  by (simp add: round_half_even_def Let_def)

lemma round_half_even_floor1: "round_half_even y \<le> \<lfloor>y\<rfloor> + 1"
  by (simp add: round_half_even_def Let_def)

lemma round_half_even_mono:
  assumes "x \<le> y"
  shows "round_half_even x \<le> round_half_even y"
proof (cases "\<lfloor>x\<rfloor> < \<lfloor>y\<rfloor>")
  case True
  have "round_half_even x \<le> \<lfloor>x\<rfloor> + 1" by (rule round_half_even_floor1)
  also have "\<dots> \<le> \<lfloor>y\<rfloor>" using True by simp
  also have "\<dots> \<le> round_half_even y" by (rule round_half_even_floor)
  finally show ?thesis .
next
  case False
  have "\<lfloor>x\<rfloor> \<le> \<lfloor>y\<rfloor>" using assms by (rule floor_mono)
  with False have eq: "\<lfloor>x\<rfloor> = \<lfloor>y\<rfloor>" by simp
  then have "x - of_int \<lfloor>x\<rfloor> \<le> y - of_int \<lfloor>y\<rfloor>" using assms by simp
  then show ?thesis
    unfolding round_half_even_def Let_def eq by auto
qed

lemma round_half_even_le: "y \<le> of_int n \<Longrightarrow> round_half_even y \<le> n"
  using round_half_even_mono [of y "of_int n"] by simp

lemma round_half_even_ge: "of_int n \<le> y \<Longrightarrow> n \<le> round_half_even y"
  using round_half_even_mono [of "of_int n" y] by simp

lemma round_half_even_minus: "round_half_even (- y) = - round_half_even y"
proof (cases "y = of_int \<lfloor>y\<rfloor>")
  case True
  then obtain n where "y = of_int n" ..
  then have "- y = of_int (- n)" by simp
  then show ?thesis unfolding \<open>y = of_int n\<close> by (simp only: round_half_even_of_int)
next
  case False
  then have lt: "of_int \<lfloor>y\<rfloor> < y" using of_int_floor_le [of y] by linarith
  have "y < of_int \<lfloor>y\<rfloor> + 1" by linarith
  then have fl: "\<lfloor>- y\<rfloor> = - \<lfloor>y\<rfloor> - 1" using lt by (intro floor_unique) simp_all
  show ?thesis
    unfolding round_half_even_def Let_def fl
    by (auto simp: field_simps)
qed

lemma round_half_even_error: "\<bar>of_int (round_half_even y) - y\<bar> \<le> 1 / 2"
proof -
  define f where "f = \<lfloor>y\<rfloor>"
  have "of_int f \<le> y" "y < of_int f + 1" unfolding f_def by linarith+
  then show ?thesis
    unfolding round_half_even_def Let_def f_def [symmetric] by (simp add: abs_if)
qed

section \<open>Rounding to a format\<close>

lemma quantum_minus: "quantum fmt (- x) = quantum fmt x"
  by (simp add: quantum_def)

lemma round_rat_0 [simp]: "round_rat fmt 0 = 0"
  by (simp add: round_rat_def)

lemma round_rat_minus: "round_rat fmt (- x) = - round_rat fmt x"
  by (simp add: round_rat_def quantum_minus round_half_even_minus)

lemma round_rat_nonneg:
  assumes "0 \<le> x"
  shows "0 \<le> round_rat fmt x"
proof -
  have "0 \<le> x / pow2 (quantum fmt x)" using assms by simp
  then have "0 \<le> round_half_even (x / pow2 (quantum fmt x))"
    using round_half_even_ge [of 0] by simp
  then show ?thesis by (simp add: round_rat_def)
qed

lemma pow2_int_power: "0 \<le> k \<Longrightarrow> pow2 k = of_int (2 ^ nat k)"
  by (simp add: pow2_def)

lemma round_rat_exact:
  assumes m: "\<bar>m\<bar> < 2 ^ prec fmt" and q: "emin fmt - int (prec fmt) + 1 \<le> q"
  shows "round_rat fmt (of_int m * pow2 q) = of_int m * pow2 q"
proof (cases "m = 0")
  case True
  then show ?thesis by simp
next
  case False
  define y where "y = of_int m * pow2 q"
  have y0: "y \<noteq> 0" using False by (simp add: y_def)
  have ay: "\<bar>y\<bar> = of_int \<bar>m\<bar> * pow2 q" by (simp add: y_def abs_mult)
  have "\<bar>m\<bar> + 1 \<le> 2 ^ prec fmt" using m by simp
  then have "(of_int (\<bar>m\<bar> + 1) :: rat) \<le> 2 ^ prec fmt" by (rule of_int_le_two_power)
  then have "(of_int \<bar>m\<bar> :: rat) < 2 ^ prec fmt" by simp
  then have "\<bar>y\<bar> < 2 ^ prec fmt * pow2 q" unfolding ay by simp
  also have "\<dots> = pow2 (int (prec fmt) + q)" by (simp add: pow2_add pow2_nat)
  finally have "flog2 \<bar>y\<bar> < int (prec fmt) + q" using y0 by (intro flog2_less) simp_all
  then have Q: "quantum fmt y \<le> q" using q by (simp add: quantum_def)
  define Q where "Q = quantum fmt y"
  have "pow2 q = pow2 (q - Q) * pow2 Q" using pow2_add [of "q - Q" Q] by simp
  also have "pow2 (q - Q) = of_int (2 ^ nat (q - Q))"
    using Q by (intro pow2_int_power) (simp add: Q_def)
  finally have pq: "pow2 q = of_int (2 ^ nat (q - Q)) * pow2 Q" .
  have "y / pow2 Q = of_int (m * 2 ^ nat (q - Q))"
    unfolding y_def pq by simp
  then have "round_half_even (y / pow2 Q) = m * 2 ^ nat (q - Q)"
    by (simp only: round_half_even_of_int)
  then have "round_rat fmt y = of_int (m * 2 ^ nat (q - Q)) * pow2 Q"
    using y0 by (simp add: round_rat_def Q_def)
  also have "\<dots> = y" unfolding y_def pq by simp
  finally show ?thesis by (simp add: y_def)
qed

lemma scaled_upper:
  assumes "0 < x"
  shows "x / pow2 (quantum fmt x) < 2 ^ prec fmt"
proof -
  define E where "E = max (flog2 x) (emin fmt)"
  have Q: "quantum fmt x = E - (int (prec fmt) - 1)" using assms by (simp add: quantum_def E_def)
  have "x < pow2 (flog2 x + 1)" using assms by (rule flog2_bounds)
  also have "\<dots> \<le> pow2 (E + 1)" by (intro pow2_mono) (simp add: E_def)
  also have "\<dots> = pow2 (int (prec fmt)) * pow2 (quantum fmt x)"
    unfolding Q using pow2_add [of "int (prec fmt)" "E - (int (prec fmt) - 1)"] by simp
  finally show ?thesis by (simp add: pow2_nat field_simps)
qed

lemma scaled_lower:
  assumes "0 < x" "emin fmt \<le> flog2 x" "0 < prec fmt"
  shows "2 ^ (prec fmt - 1) \<le> x / pow2 (quantum fmt x)"
proof -
  have Q: "quantum fmt x = flog2 x - (int (prec fmt) - 1)" using assms by (simp add: quantum_def)
  have "pow2 (int (prec fmt - 1)) * pow2 (quantum fmt x) = pow2 (flog2 x)"
    unfolding Q using pow2_add [of "int (prec fmt - 1)" "flog2 x - (int (prec fmt) - 1)"] assms(3)
    by (simp add: of_nat_diff)
  also have "\<dots> \<le> x" using assms(1) by (rule flog2_bounds)
  finally show ?thesis by (simp add: pow2_nat field_simps)
qed

lemma round_scaled_upper:
  assumes "0 < x"
  shows "round_half_even (x / pow2 (quantum fmt x)) \<le> 2 ^ prec fmt"
proof -
  have "x / pow2 (quantum fmt x) \<le> of_int (2 ^ prec fmt)"
    using scaled_upper [OF assms, of fmt] by simp
  then show ?thesis by (rule round_half_even_le)
qed

lemma round_scaled_lower:
  assumes "0 < x" "emin fmt \<le> flog2 x" "0 < prec fmt"
  shows "2 ^ (prec fmt - 1) \<le> round_half_even (x / pow2 (quantum fmt x))"
proof -
  have "of_int (2 ^ (prec fmt - 1)) \<le> x / pow2 (quantum fmt x)"
    using scaled_lower [OF assms] by simp
  then show ?thesis by (rule round_half_even_ge)
qed

lemma round_rat_upper:
  assumes "0 < x"
  shows "round_rat fmt x \<le> pow2 (max (flog2 x) (emin fmt) + 1)"
proof -
  define Q where "Q = quantum fmt x"
  have "(of_int (round_half_even (x / pow2 Q)) :: rat) \<le> 2 ^ prec fmt"
    unfolding Q_def using round_scaled_upper [OF assms, of fmt] by (rule of_int_le_two_power)
  then have "round_rat fmt x \<le> 2 ^ prec fmt * pow2 Q"
    using assms by (simp add: round_rat_def Q_def)
  also have "\<dots> = pow2 (int (prec fmt) + Q)" by (simp add: pow2_add pow2_nat)
  also have "int (prec fmt) + Q = max (flog2 x) (emin fmt) + 1"
    using assms by (simp add: Q_def quantum_def)
  finally show ?thesis .
qed

lemma round_rat_lower:
  assumes "0 < x" "emin fmt \<le> flog2 x" "0 < prec fmt"
  shows "pow2 (flog2 x) \<le> round_rat fmt x"
proof -
  define Q where "Q = quantum fmt x"
  have "int (prec fmt - 1) + Q = flog2 x"
    using assms by (simp add: Q_def quantum_def of_nat_diff)
  then have "pow2 (flog2 x) = 2 ^ (prec fmt - 1) * pow2 Q"
    using pow2_add [of "int (prec fmt - 1)" Q] by (simp add: pow2_nat)
  also have "2 ^ (prec fmt - 1) \<le> (of_int (round_half_even (x / pow2 Q)) :: rat)"
    unfolding Q_def using round_scaled_lower [OF assms] by (rule two_power_le_of_int)
  then have "2 ^ (prec fmt - 1) * pow2 Q \<le> round_rat fmt x"
    using assms by (simp add: round_rat_def Q_def)
  finally show ?thesis .
qed

lemma round_rat_mono_pos:
  assumes "0 < x" "x \<le> y" "0 < prec fmt"
  shows "round_rat fmt x \<le> round_rat fmt y"
proof -
  have y: "0 < y" using assms by simp
  have le: "flog2 x \<le> flog2 y" using assms(1,2) by (rule flog2_mono)
  show ?thesis
  proof (cases "max (flog2 x) (emin fmt) = max (flog2 y) (emin fmt)")
    case True
    then have Q: "quantum fmt x = quantum fmt y" using assms(1) y by (simp add: quantum_def)
    have "x / pow2 (quantum fmt y) \<le> y / pow2 (quantum fmt y)"
      using assms(2) by (simp add: divide_right_mono)
    then have "round_half_even (x / pow2 (quantum fmt y)) \<le> round_half_even (y / pow2 (quantum fmt y))"
      by (rule round_half_even_mono)
    then show ?thesis using assms(1) y by (simp add: round_rat_def Q)
  next
    case False
    with le have lt: "max (flog2 x) (emin fmt) < flog2 y" and ey: "emin fmt \<le> flog2 y"
      by (simp_all add: max_def split: if_splits)
    have "round_rat fmt x \<le> pow2 (max (flog2 x) (emin fmt) + 1)"
      using assms(1) by (rule round_rat_upper)
    also have "\<dots> \<le> pow2 (flog2 y)" using lt by (intro pow2_mono) linarith
    also have "\<dots> \<le> round_rat fmt y" using y ey assms(3) by (rule round_rat_lower)
    finally show ?thesis .
  qed
qed

lemma round_rat_mono:
  assumes "x \<le> y" "0 < prec fmt"
  shows "round_rat fmt x \<le> round_rat fmt y"
proof -
  consider "0 < x" | "x \<le> 0" "0 \<le> y" | "y < 0" by linarith
  then show ?thesis
  proof cases
    case 1
    then show ?thesis using assms by (intro round_rat_mono_pos)
  next
    case 2
    have "round_rat fmt x \<le> 0" using round_rat_nonneg [of "- x" fmt] 2(1)
      by (simp add: round_rat_minus)
    also have "0 \<le> round_rat fmt y" using 2(2) by (rule round_rat_nonneg)
    finally show ?thesis .
  next
    case 3
    have "round_rat fmt (- y) \<le> round_rat fmt (- x)"
      using 3 assms by (intro round_rat_mono_pos) simp_all
    then show ?thesis by (simp add: round_rat_minus)
  qed
qed

lemma round_rat_form:
  assumes "0 < prec fmt"
  shows "\<exists>m q. round_rat fmt x = of_int m * pow2 q \<and> \<bar>m\<bar> < 2 ^ prec fmt
           \<and> emin fmt - int (prec fmt) + 1 \<le> q"
proof -
  have pos: "\<exists>m q. round_rat fmt x = of_int m * pow2 q \<and> \<bar>m\<bar> < 2 ^ prec fmt
           \<and> emin fmt - int (prec fmt) + 1 \<le> q" if x: "0 < x" for x
  proof -
    define Q where "Q = quantum fmt x"
    define n where "n = round_half_even (x / pow2 Q)"
    have r: "round_rat fmt x = of_int n * pow2 Q" using x by (simp add: round_rat_def Q_def n_def)
    have Qlo: "emin fmt - int (prec fmt) + 1 \<le> Q" by (simp add: Q_def quantum_def)
    have n0: "0 \<le> n" unfolding n_def using x by (intro round_half_even_ge) simp
    have nle: "n \<le> 2 ^ prec fmt" unfolding n_def Q_def using x by (rule round_scaled_upper)
    show ?thesis
    proof (cases "n < 2 ^ prec fmt")
      case True
      then show ?thesis using r Qlo n0 by (intro exI [of _ n] exI [of _ Q]) simp
    next
      case False
      with nle have n: "n = 2 ^ prec fmt" by simp
      have "(2::int) ^ prec fmt = 2 ^ (prec fmt - 1) * 2"
        using assms by (cases "prec fmt") simp_all
      then have "(of_int n :: rat) = of_int (2 ^ (prec fmt - 1)) * 2" unfolding n by simp
      then have "round_rat fmt x = of_int (2 ^ (prec fmt - 1)) * pow2 (Q + 1)"
        unfolding r using pow2_add [of Q 1] by (simp add: pow2_def)
      moreover have "\<bar>(2::int) ^ (prec fmt - 1)\<bar> < 2 ^ prec fmt" using assms by simp
      ultimately show ?thesis using Qlo
        by (intro exI [of _ "2 ^ (prec fmt - 1)"] exI [of _ "Q + 1"]) simp
    qed
  qed
  consider "0 < x" | "x = 0" | "x < 0" by linarith
  then show ?thesis
  proof cases
    case 1
    then show ?thesis by (rule pos)
  next
    case 2
    then show ?thesis
      by (intro exI [of _ 0] exI [of _ "emin fmt - int (prec fmt) + 1"]) simp
  next
    case 3
    then have "0 < - x" by simp
    from pos [OF this] obtain m q where
      "round_rat fmt (- x) = of_int m * pow2 q" "\<bar>m\<bar> < 2 ^ prec fmt"
      "emin fmt - int (prec fmt) + 1 \<le> q" by blast
    then show ?thesis
      by (intro exI [of _ "- m"] exI [of _ q]) (simp add: round_rat_minus)
  qed
qed

lemma round_rat_idem:
  assumes "0 < prec fmt"
  shows "round_rat fmt (round_rat fmt x) = round_rat fmt x"
proof -
  from round_rat_form [OF assms, of x] obtain m q where
    "round_rat fmt x = of_int m * pow2 q" "\<bar>m\<bar> < 2 ^ prec fmt"
    "emin fmt - int (prec fmt) + 1 \<le> q" by blast
  then show ?thesis by (simp add: round_rat_exact)
qed

section \<open>Floating-point values of a format\<close>

lemma prec_binary32 [simp]: "prec binary32 = 24" "emin binary32 = - 126" "emax binary32 = 127"
  by (simp_all add: binary32_def)

lemma prec_binary64 [simp]: "prec binary64 = 53" "emin binary64 = - 1022" "emax binary64 = 1023"
  by (simp_all add: binary64_def)

lemma fround_0 [simp]: "fround fmt 0 = Fin 0"
  by (simp add: fround_def)

lemma fround_minus: "fround fmt (- x) = fneg (fround fmt x)"
  by (simp add: fround_def Let_def round_rat_minus)

lemma fround_idem:
  assumes "0 < prec fmt"
  shows "fconv fmt (fround fmt x) = fround fmt x"
proof -
  define y where "y = round_rat fmt x"
  have yy: "round_rat fmt y = y" unfolding y_def using assms by (rule round_rat_idem)
  have "fround fmt y = fround fmt x"
    by (simp add: fround_def Let_def yy y_def [symmetric])
  then show ?thesis
    by (auto simp add: fround_def Let_def y_def [symmetric])
qed

lemma representable_fround: "0 < prec fmt \<Longrightarrow> representable fmt (fround fmt x)"
  by (simp add: representable_def fround_idem)

lemma representable_special [simp]:
  "representable fmt PInf" "representable fmt NInf" "representable fmt NaN"
  "representable fmt (Fin 0)"
  by (simp_all add: representable_def)

lemma representable_fconv: "0 < prec fmt \<Longrightarrow> representable fmt (fconv fmt v)"
  by (cases v) (simp_all add: representable_fround)

lemma representable_fadd: "0 < prec fmt \<Longrightarrow> representable fmt (fadd fmt a b)"
  by (cases a; cases b) (simp_all add: representable_fround)

lemma representable_fneg: "representable fmt v \<Longrightarrow> representable fmt (fneg v)"
  by (cases v) (simp_all add: representable_def fround_minus)

lemma representable_fabs: "representable fmt v \<Longrightarrow> representable fmt (fabs v)"
proof (cases v)
  case (Fin y)
  assume r: "representable fmt v"
  show ?thesis
  proof (cases "0 \<le> y")
    case True
    then show ?thesis using r Fin by simp
  next
    case False
    then have "fabs v = fneg v" using Fin by simp
    then show ?thesis using r by (simp add: representable_fneg)
  qed
qed simp_all

lemma representable_FinD:
  assumes "representable fmt (Fin y)"
  shows "round_rat fmt y = y" and "y \<noteq> 0 \<Longrightarrow> flog2 \<bar>y\<bar> \<le> emax fmt"
  using assms
  by (auto simp add: representable_def fround_def Let_def split: if_splits)

lemma fround_exact:
  assumes "\<bar>m\<bar> < 2 ^ prec fmt" "emin fmt - int (prec fmt) + 1 \<le> q"
    and "\<bar>of_int m * pow2 q\<bar> < pow2 (emax fmt + 1)"
  shows "fround fmt (of_int m * pow2 q) = Fin (of_int m * pow2 q)"
proof (cases "m = 0")
  case True
  then show ?thesis by simp
next
  case False
  define y where "y = of_int m * pow2 q"
  have y0: "y \<noteq> 0" using False by (simp add: y_def)
  have "flog2 \<bar>y\<bar> < emax fmt + 1" using y0 assms(3) by (intro flog2_less) (simp_all add: y_def)
  moreover have "round_rat fmt y = y" unfolding y_def using assms(1,2) by (rule round_rat_exact)
  ultimately show ?thesis using y0 by (simp add: fround_def y_def)
qed

lemma representable_widen:
  assumes "representable binary32 v"
  shows "representable binary64 v"
proof (cases v)
  case (Fin y)
  show ?thesis
  proof (cases "y = 0")
    case True
    then show ?thesis using Fin by simp
  next
    case False
    have r: "round_rat binary32 y = y" and e: "flog2 \<bar>y\<bar> \<le> 127"
      using representable_FinD [of binary32 y] assms Fin False by simp_all
    from round_rat_form [of binary32 y] obtain m q where
      mq: "y = of_int m * pow2 q" "\<bar>m\<bar> < 2 ^ 24" "- 149 \<le> q"
      unfolding r by auto
    have "\<bar>m\<bar> < 2 ^ 53" using mq(2) by simp
    moreover have "\<bar>y\<bar> < pow2 (flog2 \<bar>y\<bar> + 1)" using False by (intro flog2_bounds) simp
    then have "\<bar>y\<bar> < pow2 1024"
      using e pow2_mono [of "flog2 \<bar>y\<bar> + 1" 1024] by simp
    ultimately have "fround binary64 (of_int m * pow2 q) = Fin (of_int m * pow2 q)"
      using mq(3) unfolding mq(1) by (intro fround_exact) simp_all
    then show ?thesis using Fin mq(1) by (simp add: representable_def)
  qed
qed simp_all

lemma fconv_widen: "representable binary32 v \<Longrightarrow> fconv binary64 v = v"
  using representable_widen [of v] by (simp add: representable_def)

lemma fround_nonneg:
  assumes "0 \<le> x"
  shows "fle (Fin 0) (fround fmt x)"
proof -
  have "0 \<le> round_rat fmt x" using assms by (rule round_rat_nonneg)
  then show ?thesis by (auto simp add: fround_def Let_def)
qed

lemma fle_refl_iff [simp]: "fle v v \<longleftrightarrow> v \<noteq> NaN"
  by (cases v) simp_all

lemma fround_mono:
  assumes "x \<le> y" "0 < prec fmt"
  shows "fle (fround fmt x) (fround fmt y)"
proof -
  define a where "a = round_rat fmt x"
  define b where "b = round_rat fmt y"
  have ab: "a \<le> b" unfolding a_def b_def using assms by (rule round_rat_mono)
  have up: "0 < a \<longrightarrow> flog2 \<bar>a\<bar> \<le> flog2 \<bar>b\<bar>"
    using ab by (auto intro!: flog2_mono)
  have down: "b < 0 \<longrightarrow> flog2 \<bar>b\<bar> \<le> flog2 \<bar>a\<bar>"
    using ab by (auto intro!: flog2_mono)
  consider "b < 0" | "b = 0" | "0 < b" by linarith
  then show ?thesis
  proof cases
    case 1
    then show ?thesis
      unfolding fround_def Let_def a_def [symmetric] b_def [symmetric]
      using ab down by auto
  next
    case 2
    then show ?thesis
      unfolding fround_def Let_def a_def [symmetric] b_def [symmetric]
      using ab by auto
  next
    case 3
    then show ?thesis
      unfolding fround_def Let_def a_def [symmetric] b_def [symmetric]
      using ab up by auto
  qed
qed

section \<open>The rounding at known values\<close>

text \<open>
  The nearest \<open>float\<close> and \<open>double\<close> to one tenth, the overflow threshold of \<open>float\<close> (halfway
  between the largest \<open>float\<close> and \<open>2\<^sup>1\<^sup>2\<^sup>8\<close>), and its smallest subnormal.
\<close>

lemma nearest_tenth:
  "fround binary32 (1 / 10) = Fin (13421773 / 134217728)"
  "fround binary64 (1 / 10) = Fin (3602879701896397 / 36028797018963968)"
  by code_simp+

lemma float_overflow_threshold:
  "fround binary32 (2 ^ 128 - 2 ^ 103) = PInf"
  "fround binary32 (2 ^ 128 - 2 ^ 103 - 1) = Fin (2 ^ 128 - 2 ^ 104)"
  "fround binary32 (- (2 ^ 128)) = NInf"
  by code_simp+

lemma float_underflow:
  "fround binary32 (1 / 2 ^ 149) = Fin (1 / 2 ^ 149)"
  "fround binary32 (1 / 2 ^ 150) = Fin 0"
  "fround binary32 (3 / 2 ^ 151) = Fin (1 / 2 ^ 149)"
  by code_simp+

section \<open>The constants and the conversions of the vertex program\<close>

lemma RESET_PROB_value: "RESET_PROB = Fin (5033165 / 33554432)"
  by code_simp

lemma RESET_PROB_nearest: "fround binary32 (15 / 100) = Fin (5033165 / 33554432)"
  by code_simp

lemma CONVERGENCE_THRESHOLD_value:
  "CONVERGENCE_THRESHOLD = Fin (5764607523034235 / 576460752303423488)"
  by code_simp

lemma representable_RESET_PROB: "representable binary32 RESET_PROB"
  by (simp add: RESET_PROB_def representable_fconv)

lemma one_minus_RESET_PROB:
  "fsub binary64 (Fin 1) RESET_PROB = Fin (28521267 / 33554432)"
  unfolding RESET_PROB_value by code_simp

lemma gather_unfold:
  assumes "representable binary32 (vdata g (source edge))"
  shows "gather g vertex edge =
     fconv binary32
       (fmul binary64
          (fdiv binary64 (fsub binary64 (Fin 1) RESET_PROB)
             (double_of_size_t (num_out_edges g (source edge))))
          (vdata g (source edge)))"
  using assms by (simp add: gather_def fconv_widen representable_RESET_PROB)

lemma apply_vertex_unfold:
  assumes "representable binary32 r"
  shows "apply_vertex (p, r) s =
     (p\<lparr>last_change := fabs (fsub binary64 (fadd binary32 s RESET_PROB) r)\<rparr>,
      fadd binary32 s RESET_PROB)"
proof -
  have a: "representable binary32 (fadd binary32 s RESET_PROB)"
    by (simp add: representable_fadd)
  then have b: "fconv binary64 (fadd binary32 s RESET_PROB) = fadd binary32 s RESET_PROB"
    by (rule fconv_widen)
  have c: "fconv binary32 (fadd binary32 s RESET_PROB) = fadd binary32 s RESET_PROB"
    using a by (simp add: representable_def)
  show ?thesis
    using assms by (simp add: apply_vertex_def Let_def b c fconv_widen vertex_data_format_def)
qed

section \<open>Bounds and signs of the operations of the vertex program\<close>

lemma round_rat_1 [simp]: "0 < prec fmt \<Longrightarrow> emin fmt - int (prec fmt) + 1 \<le> 0 \<Longrightarrow> round_rat fmt 1 = 1"
  using round_rat_exact [of 1 fmt 0] by simp

lemma round_rat_pow2:
  assumes "0 < prec fmt" "emin fmt - int (prec fmt) + 1 \<le> q"
  shows "round_rat fmt (pow2 q) = pow2 q"
proof -
  have "\<bar>1::int\<bar> < 2 ^ prec fmt" using assms(1) by simp
  from round_rat_exact [OF this assms(2)] show ?thesis by simp
qed

lemma fround_disj:
  "fround fmt x = Fin (round_rat fmt x)
   \<or> fround fmt x = PInf \<and> 0 < round_rat fmt x
   \<or> fround fmt x = NInf \<and> round_rat fmt x < 0"
  by (auto simp add: fround_def Let_def)

lemma fround_cases:
  obtains (Fin) "fround fmt x = Fin (round_rat fmt x)"
  | (PInf) "fround fmt x = PInf" "0 < round_rat fmt x"
  | (NInf) "fround fmt x = NInf" "round_rat fmt x < 0"
  using fround_disj [of fmt x] by blast

lemma fround_between:
  assumes "pow2 a \<le> x" "x \<le> pow2 b" "0 < prec fmt"
    and "emin fmt - int (prec fmt) + 1 \<le> a" "emin fmt - int (prec fmt) + 1 \<le> b" "b \<le> emax fmt"
  shows "\<exists>y. fround fmt x = Fin y \<and> pow2 a \<le> y \<and> y \<le> pow2 b"
proof -
  define y where "y = round_rat fmt x"
  have "round_rat fmt (pow2 a) \<le> y" unfolding y_def using assms(1,3) by (rule round_rat_mono)
  then have lo: "pow2 a \<le> y" using assms(3,4) by (simp add: round_rat_pow2)
  have "y \<le> round_rat fmt (pow2 b)" unfolding y_def using assms(2,3) by (rule round_rat_mono)
  then have hi: "y \<le> pow2 b" using assms(3,5) by (simp add: round_rat_pow2)
  have y0: "0 < y" using lo pow2_pos [of a] by linarith
  have "y < pow2 (b + 1)" using hi pow2_strict_mono [of b "b + 1"] by simp
  then have "flog2 y < b + 1" using y0 by (intro flog2_less)
  then have "\<not> emax fmt < flog2 \<bar>y\<bar>" using assms(6) y0 by simp
  then have "fround fmt x = Fin y" using y0 by (simp add: fround_def y_def [symmetric])
  then show ?thesis using lo hi by simp
qed

lemma double_of_size_t_bounds:
  assumes "1 \<le> n" "n \<le> 2 ^ 64"
  shows "\<exists>D. double_of_size_t n = Fin D \<and> 1 \<le> D \<and> D \<le> 2 ^ 64"
proof -
  have "pow2 0 \<le> (of_nat n :: rat)" using assms(1) by simp
  moreover have "(of_nat n :: rat) \<le> pow2 64"
    using assms(2) by (simp add: pow2_def)
  ultimately have "\<exists>y. fround binary64 (of_nat n) = Fin y \<and> pow2 0 \<le> y \<and> y \<le> pow2 64"
    by (rule fround_between) simp_all
  then show ?thesis by (simp add: double_of_size_t_def pow2_def)
qed

lemma double_of_size_t_nonzero:
  assumes "1 \<le> n"
  shows "double_of_size_t n \<noteq> Fin 0"
proof -
  have "round_rat binary64 1 \<le> round_rat binary64 (of_nat n)"
    using assms by (intro round_rat_mono) simp_all
  then have "1 \<le> round_rat binary64 (of_nat n)" by simp
  then show ?thesis
    by (cases rule: fround_cases [of binary64 "of_nat n"]) (simp_all add: double_of_size_t_def)
qed

lemma fle_0_cases:
  assumes "fle (Fin 0) v"
  obtains x where "v = Fin x" "0 \<le> x" | "v = PInf"
  using assms by (cases v) simp_all

lemma fconv_nonneg: "fle (Fin 0) v \<Longrightarrow> fle (Fin 0) (fconv fmt v)"
  by (erule fle_0_cases) (simp_all add: fround_nonneg)

lemma fmul_pos_nonneg:
  assumes "0 < b" "fle (Fin 0) v"
  shows "fle (Fin 0) (fmul fmt (Fin b) v)"
  using assms(2)
proof (cases rule: fle_0_cases)
  case (1 x)
  then show ?thesis using assms(1) by (simp add: fround_nonneg)
next
  case 2
  then show ?thesis using assms(1) by (simp add: signed_inf_def)
qed

lemma fadd_nonneg:
  assumes "fle (Fin 0) a" "fle (Fin 0) b"
  shows "fle (Fin 0) (fadd fmt a b)"
  using assms by (elim fle_0_cases) (simp_all add: fround_nonneg)

lemma gather_quotient:
  assumes "1 \<le> n" "n \<le> 2 ^ 64"
  shows "\<exists>b. fdiv binary64 (fsub binary64 (Fin 1) (fconv binary64 RESET_PROB))
            (double_of_size_t n) = Fin b \<and> 0 < b \<and> b \<le> 1"
proof -
  from double_of_size_t_bounds [OF assms] obtain D where
    D: "double_of_size_t n = Fin D" "1 \<le> D" "D \<le> 2 ^ 64" by blast
  define a :: rat where "a = 28521267 / 33554432"
  have a: "fsub binary64 (Fin 1) (fconv binary64 RESET_PROB) = Fin a"
    by (simp add: fconv_widen representable_RESET_PROB one_minus_RESET_PROB a_def)
  have "1 / 2 \<le> a" "a \<le> 1" by (simp_all add: a_def)
  have "a / D \<le> a / 1" using D(2) \<open>1 / 2 \<le> a\<close> by (intro divide_left_mono) simp_all
  then have hi: "a / D \<le> pow2 0" using \<open>a \<le> 1\<close> by simp
  have "(1 / 2) / 2 ^ 64 \<le> a / D"
    using D(2,3) \<open>1 / 2 \<le> a\<close> by (intro frac_le) simp_all
  then have lo: "pow2 (- 65) \<le> a / D" by (simp add: pow2_def)
  have "\<exists>y. fround binary64 (a / D) = Fin y \<and> pow2 (- 65) \<le> y \<and> y \<le> pow2 0"
    using lo hi by (rule fround_between) simp_all
  then obtain y where y: "fround binary64 (a / D) = Fin y" "pow2 (- 65) \<le> y" "y \<le> pow2 0"
    by blast
  have "0 < y" using y(2) pow2_pos [of "- 65"] by linarith
  then show ?thesis using y D a by simp
qed

lemma gather_nonneg:
  assumes "fle (Fin 0) (vdata g (source e))"
    and "1 \<le> num_out_edges g (source e)" "num_out_edges g (source e) \<le> 2 ^ 64"
  shows "fle (Fin 0) (gather g v e)"
proof -
  from gather_quotient [OF assms(2,3)] obtain b where
    b: "fdiv binary64 (fsub binary64 (Fin 1) (fconv binary64 RESET_PROB))
          (double_of_size_t (num_out_edges g (source e))) = Fin b" "0 < b" by blast
  have "fle (Fin 0) (fconv binary64 (vdata g (source e)))" using assms(1) by (rule fconv_nonneg)
  then have "fle (Fin 0) (fmul binary64 (Fin b) (fconv binary64 (vdata g (source e))))"
    using b(2) by (intro fmul_pos_nonneg)
  then show ?thesis unfolding gather_def b(1) by (rule fconv_nonneg)
qed

lemma apply_vertex_snd: "snd (apply_vertex pv s) = fadd binary32 s RESET_PROB"
proof -
  have a: "representable binary32 (fadd binary32 s RESET_PROB)"
    by (simp add: representable_fadd)
  then have "fconv binary64 (fadd binary32 s RESET_PROB) = fadd binary32 s RESET_PROB"
    by (rule fconv_widen)
  moreover have "fconv binary32 (fadd binary32 s RESET_PROB) = fadd binary32 s RESET_PROB"
    using a by (simp add: representable_def)
  ultimately show ?thesis
    by (simp add: apply_vertex_def Let_def vertex_data_format_def)
qed

lemma fadd_RESET_PROB_lower:
  assumes "fle (Fin 0) s"
  shows "fle RESET_PROB (fadd binary32 s RESET_PROB)"
  using assms
proof (cases rule: fle_0_cases)
  case (1 x)
  define R :: rat where "R = 5033165 / 33554432"
  have R: "RESET_PROB = Fin R" by (simp add: RESET_PROB_value R_def)
  have "fconv binary32 RESET_PROB = RESET_PROB"
    using representable_RESET_PROB by (simp add: representable_def)
  then have "fround binary32 R = Fin R" by (simp add: R)
  moreover have "fle (fround binary32 R) (fround binary32 (x + R))"
    using 1(2) by (intro fround_mono) simp_all
  ultimately show ?thesis using 1(1) by (simp add: R)
next
  case 2
  then show ?thesis by (simp add: RESET_PROB_value)
qed

lemma init_vertex_value: "init_vertex d = Fin 1"
proof -
  have "fround binary32 1 = Fin 1" by code_simp
  then show ?thesis by (simp add: init_vertex_def vertex_data_format_def)
qed

section \<open>Edges, out-degrees and the three-vertex cycle\<close>

lemma gather_cong:
  "vdata g (source e) = vdata g' (source e) \<Longrightarrow>
   num_out_edges g (source e) = num_out_edges g' (source e) \<Longrightarrow>
   gather g v e = gather g' v' e"
  by (simp add: gather_def)

lemma num_out_edges_source:
  assumes "e \<in> set (edges g)"
  shows "1 \<le> num_out_edges g (source e)"
proof -
  have "e \<in> set (filter (\<lambda>x. source x = source e) (edges g))" using assms by simp
  then have "0 < length (filter (\<lambda>x. source x = source e) (edges g))"
    by (rule length_pos_if_in_set)
  then have "0 < num_out_edges g (source e)" by (simp only: num_out_edges_def)
  then show ?thesis by linarith
qed

lemma zero_out_degree_no_edge:
  assumes "num_out_edges g z = 0" "e \<in> set (edges g)"
  shows "source e \<noteq> z"
  using num_out_edges_source [OF assms(2)] assms(1) by auto

lemma gather_sum_ignores_zero_out_degree:
  assumes "num_out_edges g z = 0"
  shows "gather_sum (g\<lparr>vdata := (vdata g)(z := r)\<rparr>) v = gather_sum g v"
proof -
  have e: "in_edges (g\<lparr>vdata := (vdata g)(z := r)\<rparr>) v = in_edges g v"
    by (simp add: in_edges_def)
  have "map (gather (g\<lparr>vdata := (vdata g)(z := r)\<rparr>) v) (in_edges g v)
      = map (gather g v) (in_edges g v)"
  proof (rule map_cong [OF refl])
    fix e assume "e \<in> set (in_edges g v)"
    then have "e \<in> set (edges g)" by (simp add: in_edges_def)
    then have "source e \<noteq> z" using assms by (intro zero_out_degree_no_edge)
    then show "gather (g\<lparr>vdata := (vdata g)(z := r)\<rparr>) v e = gather g v e"
      by (intro gather_cong) (simp_all add: num_out_edges_def)
  qed
  then show ?thesis by (simp only: gather_sum_def e)
qed


lemma representable_one: "representable binary32 (Fin 1)"
  by code_simp

lemma cycle_gather_value:
  "fconv binary32 (fmul binary64 (fdiv binary64 (Fin (28521267 / 33554432))
      (double_of_size_t (Suc 0))) (Fin 1)) = Fin (7130317 / 8388608)"
  by code_simp

lemma cycle_sum_value:
  "fround binary32 (7130317 / 8388608) = Fin (7130317 / 8388608)"
  by code_simp

lemma cycle_new_rank: "fround binary32 (33554433 / 33554432) = Fin 1"
  by code_simp

lemma cycle_change: "fabs (fsub binary64 (Fin 1) (Fin 1)) = Fin 0"
  by code_simp

lemma nearest_float_085: "fround binary32 (17 / 20) = Fin (7130317 / 8388608)"
  by code_simp

lemma cycle_gather:
  assumes "vdata g (source e) = Fin 1" "num_out_edges g (source e) = 1"
  shows "gather g v e = Fin (7130317 / 8388608)"
  using assms
  by (simp add: gather_unfold representable_one one_minus_RESET_PROB cycle_gather_value)

lemma cycle_apply:
  "apply_vertex (p, Fin 1) (Fin (7130317 / 8388608)) = (p\<lparr>last_change := Fin 0\<rparr>, Fin 1)"
  by (simp add: apply_vertex_unfold representable_one RESET_PROB_value cycle_new_rank cycle_change)

lemma converged_no_edges: "scatter_edges (p\<lparr>last_change := Fin 0\<rparr>) = NO_EDGES"
  by (simp add: scatter_edges_def CONVERGENCE_THRESHOLD_value)


section \<open>What a round of the engine changes and preserves\<close>

lemma apply_at_frame:
  "edges (graph (apply_at st v s)) = edges (graph st)"
  "active (apply_at st v s) = active st"
  "signalled (apply_at st v s) = signalled st"
  "u \<noteq> v \<Longrightarrow> vdata (graph (apply_at st v s)) u = vdata (graph st) u"
  "u \<noteq> v \<Longrightarrow> vprog (apply_at st v s) u = vprog st u"
  by (simp_all add: apply_at_def Let_def)

lemma apply_phase_frame:
  "edges (graph (apply_phase totals st)) = edges (graph st)
   \<and> active (apply_phase totals st) = active st
   \<and> signalled (apply_phase totals st) = signalled st
   \<and> (u \<notin> fst ` set totals \<longrightarrow>
        vdata (graph (apply_phase totals st)) u = vdata (graph st) u
        \<and> vprog (apply_phase totals st) u = vprog st u)"
proof (induction totals arbitrary: st)
  case Nil
  then show ?case by (simp add: apply_phase_def)
next
  case (Cons t totals)
  obtain v s where t: "t = (v, s)" by (cases t)
  have step: "apply_phase (t # totals) st = apply_phase totals (apply_at st v s)"
    by (simp add: apply_phase_def t)
  show ?case
    unfolding step using Cons.IH [of "apply_at st v s"]
    by (auto simp add: apply_at_frame t)
qed

lemma scatter_frame:
  "graph (scatter st v e) = graph st" "vprog (scatter st v e) = vprog st"
  "active (scatter st v e) = active st"
  by (simp_all add: scatter_def)

lemma scatter_edges_frame:
  "graph (foldl (\<lambda>s e. scatter s v e) st es) = graph st
   \<and> vprog (foldl (\<lambda>s e. scatter s v e) st es) = vprog st
   \<and> active (foldl (\<lambda>s e. scatter s v e) st es) = active st"
  by (induction es arbitrary: st) (simp_all add: scatter_frame)

lemma scatter_vertex_frame:
  "graph (scatter_vertex st v) = graph st \<and> vprog (scatter_vertex st v) = vprog st
   \<and> active (scatter_vertex st v) = active st"
  by (simp add: scatter_vertex_def scatter_edges_frame)

lemma scatter_vertices_frame:
  "graph (foldl scatter_vertex st vs) = graph st \<and> vprog (foldl scatter_vertex st vs) = vprog st
   \<and> active (foldl scatter_vertex st vs) = active st"
  by (induction vs arbitrary: st) (simp_all add: scatter_vertex_frame)

lemma scatter_phase_frame:
  "graph (scatter_phase st) = graph st \<and> vprog (scatter_phase st) = vprog st"
  by (simp add: scatter_phase_def scatter_vertices_frame)

lemma sync_round_graph:
  "graph (sync_round st) =
     graph (apply_phase (map (\<lambda>v. (v, gather_sum (graph st) v)) (active st)) st)"
  "vprog (sync_round st) =
     vprog (apply_phase (map (\<lambda>v. (v, gather_sum (graph st) v)) (active st)) st)"
  by (simp_all add: sync_round_def Let_def scatter_phase_frame)

lemma sync_round_frame:
  assumes "u \<notin> set (active st)"
  shows "vdata (graph (sync_round st)) u = vdata (graph st) u"
    and "vprog (sync_round st) u = vprog st u"
    and "edges (graph (sync_round st)) = edges (graph st)"
proof -
  have "u \<notin> fst ` set (map (\<lambda>v. (v, gather_sum (graph st) v)) (active st))"
    using assms by (auto simp add: image_iff)
  then show "vdata (graph (sync_round st)) u = vdata (graph st) u"
    and "vprog (sync_round st) u = vprog st u"
    and "edges (graph (sync_round st)) = edges (graph st)"
    unfolding sync_round_graph using apply_phase_frame by blast+
qed

lemma gather_sum_nonneg:
  assumes "\<forall>u. fle (Fin 0) (vdata g u)" "length (edges g) \<le> 2 ^ 64"
  shows "fle (Fin 0) (gather_sum g v)"
proof -
  have g: "fle (Fin 0) (gather g v e)" if "e \<in> set (in_edges g v)" for e
  proof -
    have e: "e \<in> set (edges g)" using that by (simp add: in_edges_def)
    have "num_out_edges g (source e) \<le> length (edges g)" by (simp add: num_out_edges_def)
    then have "num_out_edges g (source e) \<le> 2 ^ 64" using assms(2) by linarith
    then show ?thesis using assms(1) num_out_edges_source [OF e] by (intro gather_nonneg) simp_all
  qed
  have "fle (Fin 0) (foldl (fadd binary32) a (map (gather g v) es))"
    if "fle (Fin 0) a" "set es \<subseteq> set (in_edges g v)" for a es
    using that
  proof (induction es arbitrary: a)
    case Nil
    then show ?case by simp
  next
    case (Cons e es)
    have "fle (Fin 0) (fadd binary32 a (gather g v e))"
      using Cons.prems g by (intro fadd_nonneg) simp_all
    then show ?case using Cons by simp
  qed
  then show ?thesis by (simp add: gather_sum_def)
qed

lemma apply_phase_nonneg:
  assumes "\<forall>u. fle (Fin 0) (vdata (graph st) u)" "\<forall>t \<in> set totals. fle (Fin 0) (snd t)"
  shows "fle (Fin 0) (vdata (graph (apply_phase totals st)) u)"
  using assms
proof (induction totals arbitrary: st)
  case Nil
  then show ?case by (simp add: apply_phase_def)
next
  case (Cons t totals)
  obtain v s where t: "t = (v, s)" by (cases t)
  have step: "apply_phase (t # totals) st = apply_phase totals (apply_at st v s)"
    by (simp add: apply_phase_def t)
  have s: "fle (Fin 0) s" using Cons.prems(2) t by simp
  have "fle (Fin 0) (snd (apply_vertex (vprog st v, vdata (graph st) v) s))"
    unfolding apply_vertex_snd using s by (intro fadd_nonneg) (simp_all add: RESET_PROB_value)
  then have "\<forall>u. fle (Fin 0) (vdata (graph (apply_at st v s)) u)"
    using Cons.prems(1) by (simp add: apply_at_def Let_def)
  then show ?case unfolding step using Cons.prems(2) by (intro Cons.IH) simp_all
qed

lemma sync_round_rank_nonneg:
  assumes "\<forall>u. fle (Fin 0) (vdata (graph st) u)" "length (edges (graph st)) \<le> 2 ^ 64"
  shows "fle (Fin 0) (vdata (graph (sync_round st)) u)"
  unfolding sync_round_graph
  using assms by (intro apply_phase_nonneg) (simp_all add: gather_sum_nonneg)

lemma gather_without_out_edges:
  "gather \<lparr>edges = [], vdata = (\<lambda>v. Fin 1)\<rparr> 1 \<lparr>source = 0, target = 1\<rparr> = PInf"
  "gather \<lparr>edges = [], vdata = (\<lambda>v. Fin 0)\<rparr> 1 \<lparr>source = 0, target = 1\<rparr> = NaN"
  by code_simp+

section \<open>The rounding error of \<open>gather\<close>\<close>

lemma round_rat_rel_error:
  assumes "pow2 (emin fmt) \<le> x" "0 < prec fmt"
  shows "\<bar>round_rat fmt x - x\<bar> \<le> x / 2 ^ prec fmt"
proof -
  have x: "0 < x" using assms(1) pow2_pos [of "emin fmt"] by linarith
  have E: "emin fmt \<le> flog2 x" using assms(1) by (rule flog2_ge)
  define Q where "Q = quantum fmt x"
  define n where "n = round_half_even (x / pow2 Q)"
  have Q: "Q = flog2 x - (int (prec fmt) - 1)" using x E by (simp add: Q_def quantum_def)
  have r: "round_rat fmt x = of_int n * pow2 Q" using x by (simp add: round_rat_def Q_def n_def)
  have "\<bar>of_int n - x / pow2 Q\<bar> \<le> 1 / 2" unfolding n_def by (rule round_half_even_error)
  then have "\<bar>of_int n - x / pow2 Q\<bar> * pow2 Q \<le> 1 / 2 * pow2 Q"
    by (intro mult_right_mono) simp_all
  moreover have "\<bar>of_int n - x / pow2 Q\<bar> * pow2 Q = \<bar>of_int n * pow2 Q - x\<bar>"
  proof -
    have "\<bar>of_int n - x / pow2 Q\<bar> * pow2 Q = \<bar>(of_int n - x / pow2 Q) * pow2 Q\<bar>"
      by (simp add: abs_mult)
    also have "(of_int n - x / pow2 Q) * pow2 Q = of_int n * pow2 Q - x"
      by (simp add: field_simps)
    finally show ?thesis .
  qed
  ultimately have 1: "\<bar>round_rat fmt x - x\<bar> \<le> pow2 Q / 2" by (simp add: r)
  have "flog2 x = int (prec fmt) + (Q - 1)" by (simp add: Q)
  then have "pow2 (flog2 x) = 2 ^ prec fmt * pow2 (Q - 1)"
    by (simp only: pow2_add pow2_nat)
  moreover have "pow2 (Q - 1) = pow2 Q / 2"
    using pow2_diff [of Q 1] by (simp add: pow2_def)
  ultimately have "pow2 Q / 2 = pow2 (flog2 x) / 2 ^ prec fmt" by simp
  also have "\<dots> \<le> x / 2 ^ prec fmt"
    using flog2_bounds(1) [OF x] by (intro divide_right_mono) simp_all
  finally show ?thesis using 1 by linarith
qed

lemma fround_normal:
  assumes "pow2 a \<le> x" "x \<le> pow2 b" "emin fmt \<le> a" "b \<le> emax fmt" "0 < prec fmt"
  shows "fround fmt x = Fin (round_rat fmt x)"
    and "pow2 a \<le> round_rat fmt x" and "round_rat fmt x \<le> pow2 b"
    and "x * (1 - 1 / 2 ^ prec fmt) \<le> round_rat fmt x"
    and "round_rat fmt x \<le> x * (1 + 1 / 2 ^ prec fmt)"
proof -
  have ab: "a \<le> b" using assms(1,2) pow2_le_iff [of a b] by linarith
  have "\<exists>y. fround fmt x = Fin y \<and> pow2 a \<le> y \<and> y \<le> pow2 b"
    using assms(1,2,5) assms(3,4) ab by (intro fround_between) simp_all
  then obtain y where y: "fround fmt x = Fin y" "pow2 a \<le> y" "y \<le> pow2 b" by blast
  have "0 < y" using y(2) pow2_pos [of a] by linarith
  then have yr: "y = round_rat fmt x"
    using y(1) fround_disj [of fmt x] by auto
  show "fround fmt x = Fin (round_rat fmt x)" using y(1) yr by simp
  show "pow2 a \<le> round_rat fmt x" using y(2) yr by simp
  show "round_rat fmt x \<le> pow2 b" using y(3) yr by simp
  have "pow2 (emin fmt) \<le> x" using assms(1,3) pow2_mono [of "emin fmt" a] by linarith
  then have "\<bar>round_rat fmt x - x\<bar> \<le> x / 2 ^ prec fmt" using assms(5) by (rule round_rat_rel_error)
  then show "x * (1 - 1 / 2 ^ prec fmt) \<le> round_rat fmt x"
    and "round_rat fmt x \<le> x * (1 + 1 / 2 ^ prec fmt)"
    by (simp_all add: abs_le_iff field_simps)
qed

lemma scaled_quotient:
  fixes a r c N :: rat
  assumes "N \<noteq> 0" "c \<noteq> 0"
  shows "a / (N * c) * r = 17 / 20 / N * r * (20 * a / 17 / c)"
  using assms by (simp add: field_simps)

lemma gather_accuracy:
  fixes r :: rat and n :: nat
  assumes rank: "vdata g (source e) = Fin r" "representable binary32 (Fin r)"
    and deg: "num_out_edges g (source e) = n" "1 \<le> n" "n \<le> 2 ^ 64"
    and lo: "pow2 (- 125) \<le> (1 - 15 / 100) / of_nat n * r"
    and hi: "(1 - 15 / 100) / of_nat n * r \<le> pow2 126"
  shows "\<exists>y. gather g v e = Fin y
     \<and> \<bar>y - (1 - 15 / 100) / of_nat n * r\<bar> \<le> (1 - 15 / 100) / of_nat n * r / 2 ^ 23"
proof -
  define N :: rat where "N = of_nat n"
  define X where "X = 17 / 20 / N * r"
  define a :: rat where "a = 28521267 / 33554432"
  define u :: rat where "u = 1 / 2 ^ 53"
  define w :: rat where "w = 1 / 2 ^ 24"
  have X: "(1 - 15 / 100) / of_nat n * r = X" by (simp add: X_def N_def)
  have N1: "1 \<le> N" using deg(2) by (simp add: N_def)
  have "N \<le> 2 ^ 64" unfolding N_def using deg(3)
    by (metis of_nat_le_iff of_nat_numeral of_nat_power)
  then have N2: "N \<le> pow2 64" by (simp add: pow2_def)
  have N0: "0 < N" using N1 by linarith
  have Xlo: "pow2 (- 125) \<le> X" and Xhi: "X \<le> pow2 126" using lo hi by (simp_all only: X)
  have Xpos: "0 < X" using Xlo pow2_pos [of "- 125"] by linarith
  have rpos: "0 < r"
  proof (rule ccontr)
    assume "\<not> 0 < r"
    then have "r \<le> 0" by simp
    then have "17 / 20 / N * r \<le> 0" using N0 by (intro mult_nonneg_nonpos) simp_all
    then show False using Xpos by (simp add: X_def)
  qed
  have u: "0 < u" "u < 1" "1 / 2 ^ prec binary64 = u" by (simp_all add: u_def)
  have w: "0 < w" "w < 1" "1 / 2 ^ prec binary32 = w" by (simp_all add: w_def)
  have a: "0 < a" "1 / 2 \<le> a" "a \<le> 1" by (simp_all add: a_def)
  \<comment> \<open>the out-degree as a double\<close>
  define D where "D = round_rat binary64 N"
  have "pow2 0 \<le> N" using N1 by simp
  then have D1: "fround binary64 N = Fin D" and D2: "1 \<le> D" and D3: "D \<le> pow2 64"
    and D4: "N * (1 - u) \<le> D" and D5: "D \<le> N * (1 + u)"
    using fround_normal [of 0 N 64 binary64] N2 by (simp_all add: D_def u_def)
  have D0: "0 < D" using D2 by linarith
  \<comment> \<open>the quotient\<close>
  define q where "q = a / D"
  have q0: "0 < q" using a D0 by (simp add: q_def)
  have "a / D \<le> a / 1" using D2 a(1) by (intro divide_left_mono) simp_all
  then have qhi: "q \<le> pow2 0" using a(3) by (simp add: q_def)
  have "(1 / 2) / 2 ^ 64 \<le> a / D"
    using D2 D3 a by (intro frac_le) (simp_all add: pow2_def)
  then have qlo: "pow2 (- 65) \<le> q" by (simp add: q_def pow2_def)
  define b where "b = round_rat binary64 q"
  have b1: "fround binary64 q = Fin b" and b2: "pow2 (- 65) \<le> b"
    and b4: "q * (1 - u) \<le> b" and b5: "b \<le> q * (1 + u)"
    using fround_normal [of "- 65" q 0 binary64] qlo qhi by (simp_all add: b_def u_def)
  have b0: "0 < b" using b2 pow2_pos [of "- 65"] by linarith
  have qX_hi: "q * r \<le> X * (20 * a / 17 / (1 - u))"
  proof -
    have "0 < N * (1 - u)" using N0 u by simp
    then have "a / D \<le> a / (N * (1 - u))" using D4 a(1) by (intro divide_left_mono) simp_all
    then have "q * r \<le> a / (N * (1 - u)) * r"
      unfolding q_def using rpos by (intro mult_right_mono) simp_all
    also have "\<dots> = X * (20 * a / 17 / (1 - u))"
      unfolding X_def using N0 u(1,2) by (intro scaled_quotient) simp_all
    finally show ?thesis .
  qed
  have qX_lo: "X * (20 * a / 17 / (1 + u)) \<le> q * r"
  proof -
    have "a / (N * (1 + u)) \<le> a / D" using D5 D0 a(1) by (intro divide_left_mono) simp_all
    then have "a / (N * (1 + u)) * r \<le> q * r"
      unfolding q_def using rpos by (intro mult_right_mono) simp_all
    moreover have "a / (N * (1 + u)) * r = X * (20 * a / 17 / (1 + u))"
      unfolding X_def using N0 u(1,2) by (intro scaled_quotient) simp_all
    ultimately show ?thesis by simp
  qed
  \<comment> \<open>the product\<close>
  define t where "t = b * r"
  have t_hi: "t \<le> X * (20 * a / 17 / (1 - u) * (1 + u))"
  proof -
    have "b * r \<le> q * (1 + u) * r" using b5 rpos by (intro mult_right_mono) simp_all
    also have "\<dots> = q * r * (1 + u)" by simp
    also have "\<dots> \<le> X * (20 * a / 17 / (1 - u)) * (1 + u)"
      using qX_hi u by (intro mult_right_mono) simp_all
    finally show ?thesis by (simp add: t_def mult.assoc)
  qed
  have t_lo: "X * (20 * a / 17 / (1 + u) * (1 - u)) \<le> t"
  proof -
    have "X * (20 * a / 17 / (1 + u)) * (1 - u) \<le> q * r * (1 - u)"
      using qX_lo u by (intro mult_right_mono) simp_all
    also have "\<dots> = q * (1 - u) * r" by simp
    also have "\<dots> \<le> b * r" using b4 rpos by (intro mult_right_mono) simp_all
    finally show ?thesis by (simp add: t_def mult.assoc)
  qed
  have c2: "20 * a / 17 / (1 - u) * (1 + u) \<le> 1" by (simp add: a_def u_def)
  have c1: "1 / 2 \<le> 20 * a / 17 / (1 + u) * (1 - u)" by (simp add: a_def u_def)
  have "X * (20 * a / 17 / (1 - u) * (1 + u)) \<le> X * 1"
    using c2 Xpos by (intro mult_left_mono) simp_all
  then have thi: "t \<le> pow2 126" using t_hi Xhi by linarith
  have "X * (1 / 2) \<le> X * (20 * a / 17 / (1 + u) * (1 - u))"
    using c1 Xpos by (intro mult_left_mono) simp_all
  moreover have "pow2 (- 126) = pow2 (- 125) * (1 / 2)" by (simp add: pow2_def)
  then have "pow2 (- 126) \<le> X * (1 / 2)" using Xlo by simp
  ultimately have tlo: "pow2 (- 126) \<le> t" using t_lo by linarith
  define m where "m = round_rat binary64 t"
  have m1: "fround binary64 t = Fin m" and m2: "pow2 (- 126) \<le> m" and m3: "m \<le> pow2 126"
    and m4: "t * (1 - u) \<le> m" and m5: "m \<le> t * (1 + u)"
    using fround_normal [of "- 126" t 126 binary64] tlo thi by (simp_all add: m_def u_def)
  \<comment> \<open>the conversion to float\<close>
  define y where "y = round_rat binary32 m"
  have y1: "fround binary32 m = Fin y" and y4: "m * (1 - w) \<le> y" and y5: "y \<le> m * (1 + w)"
    using fround_normal [of "- 126" m 126 binary32] m2 m3 by (simp_all add: y_def w_def)
  have "fsub binary64 (Fin 1) (fconv binary64 RESET_PROB) = Fin a"
    by (simp add: fconv_widen representable_RESET_PROB one_minus_RESET_PROB a_def)
  moreover have "double_of_size_t n = Fin D" using D1 by (simp add: double_of_size_t_def N_def)
  moreover have "fconv binary64 (Fin r) = Fin r" using rank(2) by (rule fconv_widen)
  ultimately have g: "gather g v e = Fin y"
    using D0 b1 m1 y1 by (simp add: gather_def rank(1) deg(1) q_def t_def del: fconv.simps)
      (simp add: y1)
  \<comment> \<open>the accumulated error\<close>
  have k2: "20 * a / 17 / (1 - u) * (1 + u) * (1 + u) * (1 + w) \<le> 1 + 1 / 2 ^ 23"
    by (simp add: a_def u_def w_def)
  have k1: "1 - 1 / 2 ^ 23 \<le> 20 * a / 17 / (1 + u) * (1 - u) * (1 - u) * (1 - w)"
    by (simp add: a_def u_def w_def)
  have "y \<le> m * (1 + w)" by (rule y5)
  also have "\<dots> \<le> t * (1 + u) * (1 + w)" using m5 w by (intro mult_right_mono) simp_all
  also have "\<dots> \<le> X * (20 * a / 17 / (1 - u) * (1 + u)) * (1 + u) * (1 + w)"
    using t_hi u w by (intro mult_right_mono) simp_all
  also have "\<dots> = X * (20 * a / 17 / (1 - u) * (1 + u) * (1 + u) * (1 + w))"
    by (simp add: mult.assoc)
  also have "\<dots> \<le> X * (1 + 1 / 2 ^ 23)" using k2 Xpos by (intro mult_left_mono) simp_all
  finally have up: "y \<le> X * (1 + 1 / 2 ^ 23)" .
  have "X * (1 - 1 / 2 ^ 23) \<le> X * (20 * a / 17 / (1 + u) * (1 - u) * (1 - u) * (1 - w))"
    using k1 Xpos by (intro mult_left_mono) simp_all
  also have "\<dots> = X * (20 * a / 17 / (1 + u) * (1 - u)) * (1 - u) * (1 - w)"
    by (simp add: mult.assoc)
  also have "\<dots> \<le> t * (1 - u) * (1 - w)" using t_lo u w by (intro mult_right_mono) simp_all
  also have "\<dots> \<le> m * (1 - w)" using m4 w by (intro mult_right_mono) simp_all
  also have "\<dots> \<le> y" by (rule y4)
  finally have down: "X * (1 - 1 / 2 ^ 23) \<le> y" .
  have "y - X \<le> X / 2 ^ 23" using up by (simp add: field_simps)
  moreover have "- (y - X) \<le> X / 2 ^ 23" using down by (simp add: field_simps)
  ultimately have "\<bar>y - X\<bar> \<le> X / 2 ^ 23" by (simp only: abs_le_iff)
  then show ?thesis using g by (simp only: X) simp
qed

section \<open>The claims about the vertex program\<close>

text \<open>
  Claim C1. For every edge and every vertex (in particular when the edge is an in-edge of
  the vertex), \<open>gather\<close> returns \<open>((1 - RESET_PROB) / out_degree(edge.source)) *
  rank(edge.source)\<close>, where the out-degree is the count of edges that leave the source
  and \<open>RESET_PROB\<close> is \<open>0.15\<close> as a \<open>float\<close>. The arithmetic is the program's: the
  difference, the quotient and the product are \<open>double\<close> operations and the result is
  converted to \<open>float\<close>; the rank of the source, a \<open>float\<close>, enters the product unchanged.
  The value returned agrees with the exact value of the formula at \<open>RESET_PROB = 0.15\<close>
  up to a relative error of \<open>2\<^sup>-\<^sup>2\<^sup>3\<close>, for an out-degree that a \<open>size_t\<close> holds and a
  value in the normal range of \<open>float\<close>.
\<close>

theorem gather_weighted_rank:
  assumes "representable binary32 (vdata g (source edge))"
  shows "gather g vertex edge =
     fconv binary32
       (fmul binary64
          (fdiv binary64 (fsub binary64 (Fin 1) RESET_PROB)
             (double_of_size_t (length (filter (\<lambda>e. source e = source edge) (edges g)))))
          (vdata g (source edge)))
     \<and> RESET_PROB = fround binary32 (15 / 100)
     \<and> (vdata g (source edge) = Fin r
          \<and> 1 \<le> length (filter (\<lambda>e. source e = source edge) (edges g))
          \<and> length (filter (\<lambda>e. source e = source edge) (edges g)) \<le> 2 ^ 64
          \<and> pow2 (- 125)
              \<le> (1 - 15 / 100) / of_nat (length (filter (\<lambda>e. source e = source edge) (edges g))) * r
          \<and> (1 - 15 / 100) / of_nat (length (filter (\<lambda>e. source e = source edge) (edges g))) * r
              \<le> pow2 126
        \<longrightarrow> (\<exists>y. gather g vertex edge = Fin y
              \<and> \<bar>y - (1 - 15 / 100)
                      / of_nat (length (filter (\<lambda>e. source e = source edge) (edges g))) * r\<bar>
                 \<le> (1 - 15 / 100)
                      / of_nat (length (filter (\<lambda>e. source e = source edge) (edges g))) * r
                    / 2 ^ 23))"
proof -
  have 1: "RESET_PROB = fround binary32 (15 / 100)"
    unfolding RESET_PROB_value RESET_PROB_nearest ..
  have 2: "gather g vertex edge =
     fconv binary32
       (fmul binary64
          (fdiv binary64 (fsub binary64 (Fin 1) RESET_PROB)
             (double_of_size_t (length (filter (\<lambda>e. source e = source edge) (edges g)))))
          (vdata g (source edge)))"
    using assms by (simp add: gather_unfold num_out_edges_def)
  define n where "n = length (filter (\<lambda>e. source e = source edge) (edges g))"
  have n: "num_out_edges g (source edge) = n" by (simp add: n_def num_out_edges_def)
  have 3: "\<exists>y. gather g vertex edge = Fin y
      \<and> \<bar>y - (1 - 15 / 100) / of_nat n * r\<bar> \<le> (1 - 15 / 100) / of_nat n * r / 2 ^ 23"
    if "vdata g (source edge) = Fin r" "1 \<le> n" "n \<le> 2 ^ 64"
      "pow2 (- 125) \<le> (1 - 15 / 100) / of_nat n * r" "(1 - 15 / 100) / of_nat n * r \<le> pow2 126"
  proof -
    have "representable binary32 (Fin r)" using assms that(1) by simp
    with that(1) show ?thesis using n that(2-5) by (rule gather_accuracy)
  qed
  show ?thesis
  proof (intro conjI impI)
    show "gather g vertex edge =
       fconv binary32
         (fmul binary64
            (fdiv binary64 (fsub binary64 (Fin 1) RESET_PROB)
               (double_of_size_t (length (filter (\<lambda>e. source e = source edge) (edges g)))))
            (vdata g (source edge)))"
      by (rule 2)
    show "RESET_PROB = fround binary32 (15 / 100)" by (rule 1)
  next
    assume "vdata g (source edge) = Fin r
          \<and> 1 \<le> length (filter (\<lambda>e. source e = source edge) (edges g))
          \<and> length (filter (\<lambda>e. source e = source edge) (edges g)) \<le> 2 ^ 64
          \<and> pow2 (- 125)
              \<le> (1 - 15 / 100) / of_nat (length (filter (\<lambda>e. source e = source edge) (edges g))) * r
          \<and> (1 - 15 / 100) / of_nat (length (filter (\<lambda>e. source e = source edge) (edges g))) * r
              \<le> pow2 126"
    then show "\<exists>y. gather g vertex edge = Fin y
              \<and> \<bar>y - (1 - 15 / 100)
                      / of_nat (length (filter (\<lambda>e. source e = source edge) (edges g))) * r\<bar>
                 \<le> (1 - 15 / 100)
                      / of_nat (length (filter (\<lambda>e. source e = source edge) (edges g))) * r
                    / 2 ^ 23"
      using 3 [unfolded n_def] by blast
  qed
qed

theorem gather_weighted_rank_witness:
  "representable binary32 (Fin 1)
   \<and> gather \<lparr>edges = [\<lparr>source = 0, target = 1\<rparr>, \<lparr>source = 0, target = 2\<rparr>],
               vdata = (\<lambda>v. Fin 1)\<rparr> 1 \<lparr>source = 0, target = 1\<rparr>
       = Fin (7130317 / 16777216)
   \<and> \<bar>7130317 / 16777216 - (1 - 15 / 100) / 2 * (1::rat)\<bar> \<le> (1 - 15 / 100) / 2 * 1 / 2 ^ 23"
proof -
  define g :: graph_type where
    "g = \<lparr>edges = [\<lparr>source = 0, target = 1\<rparr>, \<lparr>source = 0, target = 2\<rparr>],
          vdata = (\<lambda>v. Fin 1)\<rparr>"
  define e :: edge_type where "e = \<lparr>source = 0, target = 1\<rparr>"
  have h: "representable binary32 (Fin 1)" by code_simp
  then have h': "representable binary32 (vdata g (source e))" by (simp add: g_def)
  have n: "length (filter (\<lambda>x. source x = source e) (edges g)) = 2"
    by (simp add: g_def e_def)
  have d: "double_of_size_t 2 = Fin 2" by code_simp
  have v: "fconv binary32 (fmul binary64 (fdiv binary64 (Fin (28521267 / 33554432)) (Fin 2))
             (Fin 1)) = Fin (7130317 / 16777216)"
    by code_simp
  have vd: "vdata g (source e) = Fin 1" by (simp add: g_def)
  note inst = gather_weighted_rank [OF h', where vertex = 1 and r = 1, unfolded n vd]
  have val: "gather g 1 e = Fin (7130317 / 16777216)"
    using inst d v by (simp add: one_minus_RESET_PROB)
  note imp = conjunct2 [OF conjunct2 [OF inst]]
  have "\<exists>y. gather g 1 e = Fin y
      \<and> \<bar>y - (1 - 15 / 100) / of_nat (2::nat) * 1\<bar> \<le> (1 - 15 / 100) / of_nat (2::nat) * 1 / 2 ^ 23"
    by (rule mp [OF imp]) (simp add: pow2_def)
  then obtain y :: rat where y: "gather g 1 e = Fin y"
      "\<bar>y - (1 - 15 / 100) / of_nat (2::nat) * 1\<bar> \<le> (1 - 15 / 100) / of_nat (2::nat) * 1 / 2 ^ 23"
    by blast
  have "y = 7130317 / 16777216" using y(1) val by simp
  then have "\<bar>7130317 / 16777216 - (1 - 15 / 100) / 2 * (1::rat)\<bar> \<le> (1 - 15 / 100) / 2 * 1 / 2 ^ 23"
    using y(2) by simp
  then show ?thesis using h val by (simp add: g_def e_def)
qed

text \<open>
  Claim C2. For every vertex and every gathered sum \<open>s\<close>, \<open>apply\<close> computes the new rank
  \<open>s + RESET_PROB\<close> (a \<open>float\<close> addition), sets \<open>last_change\<close> to the absolute value of
  the new rank minus the rank the vertex had before the update (a \<open>double\<close> subtraction),
  and sets the rank of the vertex to the new rank: neither the detour through \<open>double\<close> nor
  the assignment to the \<open>float\<close> datum changes the sum. The rank before the update is a
  \<open>float\<close>, as every vertex datum is.
\<close>

theorem apply_new_rank_and_change:
  assumes "representable binary32 (vdata (graph st) v)"
  shows "vdata (graph (apply_at st v s)) v = fadd binary32 s RESET_PROB
     \<and> last_change (vprog (apply_at st v s) v) =
         fabs (fsub binary64 (fadd binary32 s RESET_PROB) (vdata (graph st) v))
     \<and> apply_vertex (p, vdata (graph st) v) s =
         (p\<lparr>last_change :=
              fabs (fsub binary64 (fadd binary32 s RESET_PROB) (vdata (graph st) v))\<rparr>,
          fadd binary32 s RESET_PROB)"
  using assms by (simp add: apply_at_def Let_def apply_vertex_unfold)

theorem apply_new_rank_and_change_witness:
  "representable binary32 (Fin 1)
   \<and> apply_vertex (\<lparr>last_change = NaN\<rparr>, Fin 1) (Fin (1 / 2))
       = (\<lparr>last_change = Fin (2936013 / 8388608)\<rparr>, Fin (5452595 / 8388608))"
proof -
  define st :: engine where
    "st = \<lparr>graph = \<lparr>edges = [], vdata = (\<lambda>v. Fin 1)\<rparr>, vprog = (\<lambda>v. \<lparr>last_change = NaN\<rparr>),
           active = [], signalled = []\<rparr>"
  have h: "representable binary32 (Fin 1)" by code_simp
  then have h': "representable binary32 (vdata (graph st) 0)" by (simp add: st_def)
  have a: "fadd binary32 (Fin (1 / 2)) (Fin (5033165 / 33554432)) = Fin (5452595 / 8388608)"
    by code_simp
  have b: "fabs (fsub binary64 (Fin (5452595 / 8388608)) (Fin 1)) = Fin (2936013 / 8388608)"
    by code_simp
  show ?thesis
    using apply_new_rank_and_change [OF h', of "Fin (1 / 2)" "\<lparr>last_change = NaN\<rparr>"] h a b
    by (simp add: RESET_PROB_value st_def)
qed

text \<open>
  Claim C4. \<open>scatter_edges\<close> returns \<open>OUT_EDGES\<close> if and only if \<open>last_change\<close> is strictly
  greater than the threshold \<open>1E-2\<close> (the \<open>double\<close> nearest to one hundredth), and
  \<open>NO_EDGES\<close> otherwise; a \<open>last_change\<close> equal to the threshold gives \<open>NO_EDGES\<close>, and
  so does a \<open>last_change\<close> that is not a number.
\<close>

theorem scatter_edges_strict:
  "(scatter_edges p = OUT_EDGES \<longleftrightarrow> fgt (last_change p) CONVERGENCE_THRESHOLD)
   \<and> (scatter_edges p = NO_EDGES \<longleftrightarrow> \<not> fgt (last_change p) CONVERGENCE_THRESHOLD)
   \<and> CONVERGENCE_THRESHOLD = fround binary64 (1 / 100)
   \<and> (fgt (Fin x) CONVERGENCE_THRESHOLD \<longleftrightarrow> 5764607523034235 / 576460752303423488 < x)
   \<and> scatter_edges \<lparr>last_change = CONVERGENCE_THRESHOLD\<rparr> = NO_EDGES
   \<and> scatter_edges \<lparr>last_change = NaN\<rparr> = NO_EDGES"
  by (simp add: scatter_edges_def CONVERGENCE_THRESHOLD_value)
    (simp add: CONVERGENCE_THRESHOLD_value [symmetric] CONVERGENCE_THRESHOLD_def)

theorem scatter_edges_strict_witness:
  "scatter_edges \<lparr>last_change = Fin (1 / 64)\<rparr> = OUT_EDGES
   \<and> scatter_edges \<lparr>last_change = Fin (5764607523034235 / 576460752303423488)\<rparr> = NO_EDGES
   \<and> scatter_edges \<lparr>last_change = Fin (1 / 128)\<rparr> = NO_EDGES"
  using scatter_edges_strict [of "\<lparr>last_change = Fin (1 / 64)\<rparr>" "1 / 64"]
    scatter_edges_strict [of "\<lparr>last_change = Fin (1 / 128)\<rparr>" "1 / 128"]
  by (simp add: CONVERGENCE_THRESHOLD_value)


text \<open>
  Claim C9. \<open>apply\<close> on a vertex leaves the rank and the \<open>last_change\<close> of every other
  vertex as they were, and leaves the edges, the active set and the signals alone;
  \<open>scatter\<close> computes nothing: it records a signal for the target of the edge and leaves
  every rank and every \<open>last_change\<close> as they were. \<open>gather\<close> and \<open>scatter_edges\<close> are
  constant member functions without an assignment: they only return a value. So the
  scatter phase of a round, which calls \<open>scatter_edges\<close> and \<open>scatter\<close>, leaves the graph
  and the program objects as they were, and a whole round, which calls \<open>gather\<close>, \<open>apply\<close>,
  \<open>scatter_edges\<close> and \<open>scatter\<close>, changes the rank and the \<open>last_change\<close> of no vertex
  but the active ones, on which it invokes \<open>apply\<close>.
\<close>

theorem only_apply_writes_own_vertex:
  "(u \<noteq> v \<longrightarrow> vdata (graph (apply_at st v s)) u = vdata (graph st) u
              \<and> vprog (apply_at st v s) u = vprog st u)
   \<and> edges (graph (apply_at st v s)) = edges (graph st)
   \<and> active (apply_at st v s) = active st
   \<and> signalled (apply_at st v s) = signalled st
   \<and> graph (scatter st v e) = graph st
   \<and> vprog (scatter st v e) = vprog st
   \<and> active (scatter st v e) = active st
   \<and> signalled (scatter st v e) = signalled st @ [target e]
   \<and> graph (scatter_phase st) = graph st
   \<and> vprog (scatter_phase st) = vprog st
   \<and> (u \<notin> set (active st) \<longrightarrow> vdata (graph (sync_round st)) u = vdata (graph st) u
              \<and> vprog (sync_round st) u = vprog st u)"
proof -
  have "vdata (graph (apply_at st v s)) u = vdata (graph st) u
      \<and> vprog (apply_at st v s) u = vprog st u" if "u \<noteq> v"
    using that by (simp add: apply_at_frame)
  moreover have "vdata (graph (sync_round st)) u = vdata (graph st) u
      \<and> vprog (sync_round st) u = vprog st u" if "u \<notin> set (active st)"
    using that by (simp add: sync_round_frame)
  moreover have "signalled (scatter st v e) = signalled st @ [target e]"
    by (simp add: scatter_def)
  ultimately show ?thesis
    by (simp add: apply_at_frame scatter_frame scatter_phase_frame)
qed

theorem only_apply_writes_own_vertex_witness:
  "(1::nat) \<noteq> 0 \<and> (1::nat) \<notin> set [0]
   \<and> vdata (graph (apply_at \<lparr>graph = \<lparr>edges = [], vdata = (\<lambda>v. Fin 1)\<rparr>,
        vprog = (\<lambda>v. \<lparr>last_change = Fin 0\<rparr>), active = [0], signalled = []\<rparr> 0 (Fin 0))) 1
      = Fin 1
   \<and> vprog (apply_at \<lparr>graph = \<lparr>edges = [], vdata = (\<lambda>v. Fin 1)\<rparr>,
        vprog = (\<lambda>v. \<lparr>last_change = Fin 0\<rparr>), active = [0], signalled = []\<rparr> 0 (Fin 0)) 1
      = \<lparr>last_change = Fin 0\<rparr>
   \<and> vdata (graph (sync_round \<lparr>graph = \<lparr>edges = [], vdata = (\<lambda>v. Fin 1)\<rparr>,
        vprog = (\<lambda>v. \<lparr>last_change = Fin 0\<rparr>), active = [0], signalled = []\<rparr>)) 1
      = Fin 1"
  using only_apply_writes_own_vertex [of 1 0 "\<lparr>graph = \<lparr>edges = [], vdata = (\<lambda>v. Fin 1)\<rparr>,
        vprog = (\<lambda>v. \<lparr>last_change = Fin 0\<rparr>), active = [0], signalled = []\<rparr>" "Fin 0"]
  by simp

text \<open>
  Claim C10. The value of \<open>gather\<close> depends only on the rank and the out-degree of the
  source of the edge: two graphs that agree on them, however they differ elsewhere, and
  whatever vertex is gathered for, give the same value.
\<close>

theorem gather_reads_source_only:
  assumes "vdata g (source e) = vdata g' (source e)"
    and "num_out_edges g (source e) = num_out_edges g' (source e)"
  shows "gather g v e = gather g' v' e"
  using assms by (simp add: gather_def)

theorem gather_reads_source_only_witness:
  "gather \<lparr>edges = [\<lparr>source = 0, target = 1\<rparr>], vdata = (\<lambda>v. if v = 0 then Fin 1 else Fin 5)\<rparr>
      1 \<lparr>source = 0, target = 1\<rparr>
   = gather \<lparr>edges = [\<lparr>source = 0, target = 2\<rparr>, \<lparr>source = 2, target = 1\<rparr>],
             vdata = (\<lambda>v. if v = 0 then Fin 1 else NaN)\<rparr>
      2 \<lparr>source = 0, target = 1\<rparr>"
  by (rule gather_reads_source_only) (simp_all add: num_out_edges_def)

section \<open>The claims about the graph and the rounds\<close>

text \<open>
  Claim C3. \<open>gather\<close> is never invoked on an edge whose source has out-degree 0: the
  source of every in-edge that the engine gathers over has the edge itself among its
  out-edges, so its out-degree is not 0 and the divisor of \<open>gather\<close>, the out-degree as a
  \<open>double\<close>, is not zero. A vertex of out-degree 0 is the source of no gathered edge and
  contributes nothing to any gathered sum: the sum of every vertex is the same whatever
  the rank of that vertex.
\<close>

theorem zero_out_degree_never_gathered:
  "(e \<in> set (in_edges g v) \<longrightarrow>
      num_out_edges g (source e) \<noteq> 0
      \<and> double_of_size_t (num_out_edges g (source e)) \<noteq> Fin 0)
   \<and> (num_out_edges g z = 0 \<longrightarrow>
      filter (\<lambda>e. source e = z) (in_edges g v) = []
      \<and> gather_sum (g\<lparr>vdata := (vdata g)(z := r)\<rparr>) v = gather_sum g v)"
proof -
  have a: "num_out_edges g (source e) \<noteq> 0
      \<and> double_of_size_t (num_out_edges g (source e)) \<noteq> Fin 0"
    if "e \<in> set (in_edges g v)"
  proof -
    have "e \<in> set (edges g)" using that by (simp add: in_edges_def)
    then have "1 \<le> num_out_edges g (source e)" by (rule num_out_edges_source)
    then show ?thesis using double_of_size_t_nonzero by auto
  qed
  have b: "filter (\<lambda>e. source e = z) (in_edges g v) = []" if "num_out_edges g z = 0"
    using zero_out_degree_no_edge [OF that] by (auto simp add: filter_empty_conv in_edges_def)
  show ?thesis using a b gather_sum_ignores_zero_out_degree by blast
qed

theorem zero_out_degree_never_gathered_witness:
  "\<lparr>source = 0, target = 1\<rparr> \<in> set (in_edges \<lparr>edges = [\<lparr>source = 0, target = 1\<rparr>], vdata = (\<lambda>v. Fin 1)\<rparr> 1)
   \<and> num_out_edges \<lparr>edges = [\<lparr>source = 0, target = 1\<rparr>], vdata = (\<lambda>v. Fin 1)\<rparr> 1 = 0
   \<and> num_out_edges \<lparr>edges = [\<lparr>source = 0, target = 1\<rparr>], vdata = (\<lambda>v. Fin 1)\<rparr> 0 \<noteq> 0
   \<and> gather_sum \<lparr>edges = [\<lparr>source = 0, target = 1\<rparr>], vdata = (\<lambda>v. Fin 1)(1 := Fin 7)\<rparr> 1
     = gather_sum \<lparr>edges = [\<lparr>source = 0, target = 1\<rparr>], vdata = (\<lambda>v. Fin 1)\<rparr> 1"
proof -
  define g :: graph_type where "g = \<lparr>edges = [\<lparr>source = 0, target = 1\<rparr>], vdata = (\<lambda>v. Fin 1)\<rparr>"
  have 1: "\<lparr>source = 0, target = 1\<rparr> \<in> set (in_edges g 1)" by (simp add: g_def in_edges_def)
  have 2: "num_out_edges g 1 = 0" by (simp add: g_def num_out_edges_def)
  show ?thesis
    using zero_out_degree_never_gathered [of "\<lparr>source = 0, target = 1\<rparr>" g 1 1 "Fin 7"] 1 2
    by (simp add: g_def)
qed

text \<open>
  Claim C6. The rank is at least 0 after initialisation and stays so: \<open>init_vertex\<close> sets
  the rank to 1; \<open>gather\<close> returns a value that is at least 0 when the rank of the source
  is at least 0 and its out-degree, a \<open>size_t\<close>, is at least 1; \<open>apply\<close> on a gathered sum
  that is at least 0 leaves a rank that is at least \<open>RESET_PROB\<close>, hence at least 0. So a
  round of the engine, on a graph whose edges a \<open>size_t\<close> counts, keeps every rank at
  least 0. Infinite ranks and sums count as at least 0; a NaN does not.
\<close>

theorem rank_nonneg_preserved:
  "init_vertex d = Fin 1 \<and> fle (Fin 0) (init_vertex d)
   \<and> (fle (Fin 0) (vdata g (source e)) \<and> 1 \<le> num_out_edges g (source e)
        \<and> num_out_edges g (source e) \<le> 2 ^ 64
      \<longrightarrow> fle (Fin 0) (gather g v e))
   \<and> (fle (Fin 0) s \<longrightarrow>
        fle RESET_PROB (snd (apply_vertex pv s)) \<and> fle (Fin 0) (snd (apply_vertex pv s))
        \<and> fle RESET_PROB (vdata (graph (apply_at st v s)) v))
   \<and> ((\<forall>u. fle (Fin 0) (vdata (graph st) u)) \<and> length (edges (graph st)) \<le> 2 ^ 64
      \<longrightarrow> fle (Fin 0) (vdata (graph (sync_round st)) w))"
proof -
  have "fle (Fin 0) (snd (apply_vertex pv s))" if "fle (Fin 0) s"
    unfolding apply_vertex_snd using that by (intro fadd_nonneg) (simp_all add: RESET_PROB_value)
  moreover have "fle RESET_PROB (snd (apply_vertex pv s))" if "fle (Fin 0) s" for pv
    unfolding apply_vertex_snd using that by (rule fadd_RESET_PROB_lower)
  moreover have "fle (Fin 0) (vdata (graph (sync_round st)) w)"
    if "\<forall>u. fle (Fin 0) (vdata (graph st) u)" "length (edges (graph st)) \<le> 2 ^ 64"
    using that by (rule sync_round_rank_nonneg)
  ultimately show ?thesis
    by (simp add: init_vertex_value gather_nonneg apply_at_def Let_def)
qed

theorem rank_nonneg_preserved_witness:
  "fle (Fin 0) (Fin 1) \<and> (1::nat) \<le> 1 \<and> (1::nat) \<le> 2 ^ 64 \<and> fle (Fin 0) (Fin 0)
   \<and> fle (Fin 0) (gather \<lparr>edges = [\<lparr>source = 0, target = 1\<rparr>], vdata = (\<lambda>v. Fin 1)\<rparr> 1
        \<lparr>source = 0, target = 1\<rparr>)
   \<and> fle RESET_PROB (snd (apply_vertex (\<lparr>last_change = NaN\<rparr>, Fin 1) (Fin 0)))
   \<and> fle (Fin 0) (vdata (graph (sync_round
        \<lparr>graph = \<lparr>edges = [\<lparr>source = 0, target = 1\<rparr>], vdata = (\<lambda>v. Fin 1)\<rparr>,
         vprog = (\<lambda>v. \<lparr>last_change = NaN\<rparr>), active = [0, 1], signalled = []\<rparr>)) 1)"
proof -
  define g :: graph_type where "g = \<lparr>edges = [\<lparr>source = 0, target = 1\<rparr>], vdata = (\<lambda>v. Fin 1)\<rparr>"
  define e :: edge_type where "e = \<lparr>source = 0, target = 1\<rparr>"
  define st :: engine where
    "st = \<lparr>graph = g, vprog = (\<lambda>v. \<lparr>last_change = NaN\<rparr>), active = [0, 1], signalled = []\<rparr>"
  have 1: "fle (Fin 0) (vdata g (source e))" by (simp add: g_def)
  have 2: "num_out_edges g (source e) = 1" by (simp add: g_def e_def num_out_edges_def)
  have 3: "\<forall>u. fle (Fin 0) (vdata (graph st) u)" by (simp add: st_def g_def)
  have 4: "length (edges (graph st)) \<le> 2 ^ 64" by (simp add: st_def g_def)
  show ?thesis
    using rank_nonneg_preserved
      [where g = g and e = e and v = 1 and s = "Fin 0"
        and pv = "(\<lparr>last_change = NaN\<rparr>, Fin 1)" and st = st and w = 1]
      1 2 3 4
    by (simp add: g_def e_def st_def)
qed

text \<open>
  Claim C8, as stated, fails for the rank: the vertex data is a \<open>float\<close>, and the \<open>double\<close>
  nearest to one tenth is a value that it does not hold.
\<close>

theorem vertex_data_not_double:
  "representable binary64 (fround binary64 (1 / 10))
   \<and> \<not> representable vertex_data_format (fround binary64 (1 / 10))
   \<and> fconv vertex_data_format (fround binary64 (1 / 10)) \<noteq> fround binary64 (1 / 10)"
  unfolding vertex_data_format_def by code_simp

text \<open>
  Claim C8, as the program has it. The rank is a 32-bit \<open>float\<close>: what \<open>init_vertex\<close> and
  \<open>apply\<close> store is a binary32 value. \<open>last_change\<close> is a 64-bit \<open>double\<close>: what \<open>apply\<close>
  stores is a binary64 value, and it can be one that no \<open>float\<close> holds (the change from
  rank 1 to rank \<open>RESET_PROB\<close>).
\<close>

theorem rank_is_float_last_change_is_double:
  "vertex_data_format = binary32
   \<and> representable binary32 (init_vertex d)
   \<and> representable binary32 (snd (apply_vertex pv s))
   \<and> representable binary32 (vdata (graph (apply_at st v s)) v)
   \<and> representable binary64 (last_change (fst (apply_vertex pv s)))
   \<and> representable binary64 (last_change (vprog (apply_at st v s) v))
   \<and> \<not> representable binary32 (last_change (fst (apply_vertex (p, Fin 1) (Fin 0))))"
proof -
  have lc: "representable binary64 (last_change (fst (apply_vertex pv s)))" for pv
    by (simp add: apply_vertex_def Let_def fsub_def representable_fabs representable_fadd)
  have "fabs (fsub binary64 (fconv binary64 (fadd binary32 (Fin 0) (Fin (5033165 / 33554432))))
          (fconv binary64 (Fin 1))) = Fin (28521267 / 33554432)"
    by code_simp
  moreover have "\<not> representable binary32 (Fin (28521267 / 33554432))" by code_simp
  ultimately have "\<not> representable binary32 (last_change (fst (apply_vertex (p, Fin 1) (Fin 0))))"
    by (simp add: apply_vertex_def Let_def RESET_PROB_value)
  then show ?thesis
    using lc
    by (simp add: init_vertex_value apply_vertex_snd representable_fadd apply_at_def Let_def
        vertex_data_format_def representable_def [of binary32 "Fin 1"])
      code_simp
qed

theorem rank_is_float_last_change_is_double_witness:
  "representable binary32 (snd (apply_vertex (\<lparr>last_change = NaN\<rparr>, Fin 1) (Fin 0)))
   \<and> representable binary64 (last_change (fst (apply_vertex (\<lparr>last_change = NaN\<rparr>, Fin 1) (Fin 0))))
   \<and> \<not> representable binary32
        (last_change (fst (apply_vertex (\<lparr>last_change = NaN\<rparr>, Fin 1) (Fin 0))))"
  using rank_is_float_last_change_is_double
    [where pv = "(\<lparr>last_change = NaN\<rparr>, Fin 1)" and s = "Fin 0" and p = "\<lparr>last_change = NaN\<rparr>"]
  by simp

text \<open>
  Claim C5. On the directed cycle of the vertices 0, 1 and 2 (each of out-degree 1),
  whatever the vertex data and the program objects hold before the run: after
  \<open>init_vertex\<close> every rank is 1 and every vertex is active; in round 1 every gathered sum
  is \<open>0.85\<close> as a \<open>float\<close> (the binary32 value nearest to 0.85, less than \<open>2\<^sup>-\<^sup>2\<^sup>5\<close> away
  from it), every new rank is exactly 1, every \<open>last_change\<close> is 0, \<open>scatter_edges\<close>
  returns \<open>NO_EDGES\<close> for every vertex, no vertex is signalled, and the active set is
  empty after the round.
\<close>

theorem three_cycle_round_1:
  "let g = \<lparr>edges = [\<lparr>source = 0, target = 1\<rparr>, \<lparr>source = 1, target = 2\<rparr>,
                       \<lparr>source = 2, target = 0\<rparr>], vdata = d0\<rparr>;
       st0 = start_engine [0, 1, 2] g p0;
       st1 = sync_round st0
   in map (num_out_edges g) [0, 1, 2] = [1, 1, 1]
      \<and> active st0 = [0, 1, 2]
      \<and> map (vdata (graph st0)) [0, 1, 2] = [Fin 1, Fin 1, Fin 1]
      \<and> map (gather_sum (graph st0)) [0, 1, 2]
          = [fround binary32 (85 / 100), fround binary32 (85 / 100), fround binary32 (85 / 100)]
      \<and> fround binary32 (85 / 100) = Fin (7130317 / 8388608)
      \<and> \<bar>7130317 / 8388608 - 85 / 100\<bar> \<le> (1 / 2 ^ 25 :: rat)
      \<and> map (vdata (graph st1)) [0, 1, 2] = [Fin 1, Fin 1, Fin 1]
      \<and> map (\<lambda>v. last_change (vprog st1 v)) [0, 1, 2] = [Fin 0, Fin 0, Fin 0]
      \<and> map (\<lambda>v. scatter_edges (vprog st1 v)) [0, 1, 2] = [NO_EDGES, NO_EDGES, NO_EDGES]
      \<and> signalled (scatter_phase (apply_phase
            (map (\<lambda>v. (v, gather_sum (graph st0) v)) (active st0)) st0)) = []
      \<and> active st1 = []"
proof -
  define g :: graph_type where
    "g = \<lparr>edges = [\<lparr>source = 0, target = 1\<rparr>, \<lparr>source = 1, target = 2\<rparr>,
                       \<lparr>source = 2, target = 0\<rparr>], vdata = d0\<rparr>"
  define g1 where "g1 = transform_vertices init_vertex g"
  define st0 where "st0 = start_engine [0, 1, 2] g p0"
  have g1: "edges g1 = edges g" "vdata g1 = (\<lambda>v. Fin 1)"
    by (simp_all add: g1_def transform_vertices_def init_vertex_value)
  have deg: "num_out_edges g1 v = 1" if "v = 0 \<or> v = 1 \<or> v = 2" for v
    using that by (auto simp add: num_out_edges_def g1 g_def)
  have deg0: "map (num_out_edges g) [0, 1, 2] = [1, 1, 1]"
    by (simp add: num_out_edges_def g_def)
  have st0: "graph st0 = g1" "vprog st0 = p0" "active st0 = [0, 1, 2]" "signalled st0 = []"
    by (simp_all add: st0_def start_engine_def g1_def)
  have sum: "gather_sum g1 v = Fin (7130317 / 8388608)" if "v = 0 \<or> v = 1 \<or> v = 2" for v
    using that
    by (auto simp add: gather_sum_def in_edges_def g1(1) g_def cycle_gather g1(2) deg
        cycle_sum_value)
  define st' where "st' = apply_phase (map (\<lambda>v. (v, gather_sum (graph st0) v)) (active st0)) st0"
  have st': "vdata (graph st') = (\<lambda>v. if v = 0 \<or> v = 1 \<or> v = 2 then Fin 1 else Fin 1)"
      "edges (graph st') = edges g"
      "vprog st' = p0(0 := (p0 0)\<lparr>last_change := Fin 0\<rparr>, 1 := (p0 1)\<lparr>last_change := Fin 0\<rparr>,
         2 := (p0 2)\<lparr>last_change := Fin 0\<rparr>)"
      "active st' = [0, 1, 2]" "signalled st' = []"
    by (auto simp add: st'_def st0 sum apply_phase_def apply_at_def Let_def g1 cycle_apply)
  define st'' where "st'' = scatter_phase st'"
  have st'': "st'' = st'"
    by (simp add: st''_def scatter_phase_def st' scatter_vertex_def converged_no_edges)
  have st1: "sync_round st0 = st'\<lparr>active := [], signalled := []\<rparr>"
    using st'' by (simp add: sync_round_def Let_def st'_def [symmetric] st''_def [symmetric] st')
  show ?thesis
    unfolding Let_def g_def [symmetric] st0_def [symmetric] st1 st'_def [symmetric]
      st''_def [symmetric] st''
    using deg0 by (simp add: st0 sum st' nearest_float_085 g1 converged_no_edges)
qed

theorem three_cycle_round_1_witness:
  "active (sync_round (start_engine [0, 1, 2]
      \<lparr>edges = [\<lparr>source = 0, target = 1\<rparr>, \<lparr>source = 1, target = 2\<rparr>,
                \<lparr>source = 2, target = 0\<rparr>], vdata = (\<lambda>v. NaN)\<rparr>
      (\<lambda>v. \<lparr>last_change = NaN\<rparr>))) = []"
  using three_cycle_round_1 [of "\<lambda>v. NaN" "\<lambda>v. \<lparr>last_change = NaN\<rparr>"]
  by (simp add: Let_def)

end
